theory Spec2Isabelle
  imports Main "HOL-Library.Word" "HOL-Library.Sublist"
begin

section \<open>Caps of GStreamer core, as gstglupload.c reads and builds them\<close>

text \<open>
  GstCaps, GstStructure and GstCapsFeatures belong to GStreamer core, a library outside
  this source tree. The upload object only calls their functions, so they are modelled
  here by what those functions return: a caps value is either the ANY caps or an ordered
  list of entries, each a feature set and a structure (a media type name with fields).
  A field value is one fixed value or a list of alternatives.
\<close>

datatype GValue = VFixed string | VList "string list"

type_synonym GstStructure = "string \<times> (string \<times> GValue) list"

datatype GstCapsFeatures = FeaturesAny | Features "string list"

datatype GstCaps = CapsAny | Caps "(GstCapsFeatures \<times> GstStructure) list"

definition GST_CAPS_FEATURE_MEMORY_SYSTEM_MEMORY :: string where
  "GST_CAPS_FEATURE_MEMORY_SYSTEM_MEMORY = ''memory:SystemMemory''"

definition GST_CAPS_FEATURE_MEMORY_GL_MEMORY :: string where
  "GST_CAPS_FEATURE_MEMORY_GL_MEMORY = ''memory:GLMemory''"

definition GST_CAPS_FEATURE_MEMORY_EGL_IMAGE :: string where
  "GST_CAPS_FEATURE_MEMORY_EGL_IMAGE = ''memory:EGLImage''"

definition GST_CAPS_FEATURE_META_GST_VIDEO_GL_TEXTURE_UPLOAD_META :: string where
  "GST_CAPS_FEATURE_META_GST_VIDEO_GL_TEXTURE_UPLOAD_META = ''meta:GstVideoGLTextureUploadMeta''"

definition GST_CAPS_FEATURE_META_GST_VIDEO_OVERLAY_COMPOSITION :: string where
  "GST_CAPS_FEATURE_META_GST_VIDEO_OVERLAY_COMPOSITION = ''meta:GstVideoOverlayComposition''"

text \<open>gst_caps_features_contains: ANY contains everything, the empty set stands for
  system memory.\<close>

fun gst_caps_features_contains :: "GstCapsFeatures \<Rightarrow> string \<Rightarrow> bool" where
  "gst_caps_features_contains FeaturesAny f = True"
| "gst_caps_features_contains (Features fs) f =
     (if fs = [] then f = GST_CAPS_FEATURE_MEMORY_SYSTEM_MEMORY else f \<in> set fs)"

fun gst_caps_features_is_equal :: "GstCapsFeatures \<Rightarrow> GstCapsFeatures \<Rightarrow> bool" where
  "gst_caps_features_is_equal FeaturesAny FeaturesAny = True"
| "gst_caps_features_is_equal FeaturesAny (Features b) = False"
| "gst_caps_features_is_equal (Features a) FeaturesAny = False"
| "gst_caps_features_is_equal (Features a) (Features b) =
     (if a = [] \<and> b = [] then True
      else if a = [] \<and> b = [GST_CAPS_FEATURE_MEMORY_SYSTEM_MEMORY] then True
      else if b = [] \<and> a = [GST_CAPS_FEATURE_MEMORY_SYSTEM_MEMORY] then True
      else if length a \<noteq> length b then False
      else list_all (gst_caps_features_contains (Features b)) a)"

text \<open>gst_caps_features_add appends a feature that is not there yet.\<close>

fun gst_caps_features_add :: "GstCapsFeatures \<Rightarrow> string \<Rightarrow> GstCapsFeatures" where
  "gst_caps_features_add FeaturesAny f = Features [f]"
| "gst_caps_features_add (Features fs) f =
     (if fs \<noteq> [] \<and> f \<in> set fs then Features fs else Features (fs @ [f]))"

text \<open>gst_caps_get_features (caps, i) is NULL when there is no entry i.\<close>

fun gst_caps_get_features :: "GstCaps \<Rightarrow> nat \<Rightarrow> GstCapsFeatures option" where
  "gst_caps_get_features CapsAny i = None"
| "gst_caps_get_features (Caps es) i = (if i < length es then Some (fst (es ! i)) else None)"

text \<open>The test every accept function makes on a session caps pointer: the features of
  entry 0 contain the named feature. A NULL caps pointer or NULL features fail the
  library's argument checks, which answer FALSE.\<close>

definition caps_has_feature :: "GstCaps option \<Rightarrow> string \<Rightarrow> bool" where
  "caps_has_feature c f =
     (case c of None \<Rightarrow> False
      | Some caps \<Rightarrow> (case gst_caps_get_features caps 0 of None \<Rightarrow> False
                      | Some fs \<Rightarrow> gst_caps_features_contains fs f))"

fun value_alternatives :: "GValue \<Rightarrow> string list" where
  "value_alternatives (VFixed a) = [a]"
| "value_alternatives (VList l) = l"

fun gst_value_is_fixed :: "GValue \<Rightarrow> bool" where
  "gst_value_is_fixed (VFixed a) = True"
| "gst_value_is_fixed (VList l) = False"

definition value_is_subset :: "GValue \<Rightarrow> GValue \<Rightarrow> bool" where
  "value_is_subset v w = list_all (\<lambda>a. a \<in> set (value_alternatives w)) (value_alternatives v)"

definition gst_value_intersect :: "GValue \<Rightarrow> GValue \<Rightarrow> GValue option" where
  "gst_value_intersect v w =
     (case filter (\<lambda>a. a \<in> set (value_alternatives w)) (value_alternatives v) of
        [] \<Rightarrow> None
      | [a] \<Rightarrow> Some (VFixed a)
      | a # b # r \<Rightarrow> Some (VList (a # b # r)))"

text \<open>gst_structure_is_subset (subset, superset): same name, and every field of the
  superset is a field of the subset with a value inside the superset's.\<close>

definition gst_structure_is_subset :: "GstStructure \<Rightarrow> GstStructure \<Rightarrow> bool" where
  "gst_structure_is_subset sub super =
     (fst sub = fst super \<and> length (snd super) \<le> length (snd sub) \<and>
      list_all (\<lambda>(k, w). case map_of (snd sub) k of None \<Rightarrow> False
                          | Some v \<Rightarrow> value_is_subset v w) (snd super))"

text \<open>gst_structure_intersect: NULL when the names differ or a common field has no
  common value; otherwise the fields of the first structure, narrowed, followed by the
  fields only the second one has.\<close>

fun intersect_fields ::
  "(string \<times> GValue) list \<Rightarrow> (string \<times> GValue) list \<Rightarrow> (string \<times> GValue) list option" where
  "intersect_fields [] other = Some []"
| "intersect_fields ((k, v) # r) other =
     (case intersect_fields r other of
        None \<Rightarrow> None
      | Some r' \<Rightarrow>
          (case map_of other k of
             None \<Rightarrow> Some ((k, v) # r')
           | Some w \<Rightarrow> (case gst_value_intersect v w of
                          None \<Rightarrow> None
                        | Some u \<Rightarrow> Some ((k, u) # r'))))"

definition gst_structure_intersect :: "GstStructure \<Rightarrow> GstStructure \<Rightarrow> GstStructure option" where
  "gst_structure_intersect s1 s2 =
     (if fst s1 \<noteq> fst s2 then None
      else (case intersect_fields (snd s1) (snd s2) of
              None \<Rightarrow> None
            | Some fs \<Rightarrow>
                Some (fst s1, fs @ filter (\<lambda>(k, w). map_of (snd s1) k = None) (snd s2))))"

text \<open>gst_caps_merge_structure_full appends an entry unless an entry with equal features
  already covers its structure; gst_caps_merge does so for every entry of the second
  caps, in order, and ANY absorbs everything.\<close>

definition gst_caps_merge_structure_full ::
  "(GstCapsFeatures \<times> GstStructure) list \<Rightarrow> GstCapsFeatures \<times> GstStructure \<Rightarrow>
   (GstCapsFeatures \<times> GstStructure) list" where
  "gst_caps_merge_structure_full es e =
     (if list_ex (\<lambda>e1. gst_caps_features_is_equal (fst e) (fst e1) \<and>
                        gst_structure_is_subset (snd e) (snd e1)) es
      then es else es @ [e])"

fun gst_caps_merge :: "GstCaps \<Rightarrow> GstCaps \<Rightarrow> GstCaps" where
  "gst_caps_merge CapsAny c2 = CapsAny"
| "gst_caps_merge (Caps es1) CapsAny = CapsAny"
| "gst_caps_merge (Caps es1) (Caps es2) = Caps (foldl gst_caps_merge_structure_full es1 es2)"

text \<open>gst_caps_intersect_full (caps1, caps2, GST_CAPS_INTERSECT_FIRST): the entries of
  caps1 in order, each against every entry of caps2 with equal features.\<close>

definition intersect_entry ::
  "GstCapsFeatures \<times> GstStructure \<Rightarrow> (GstCapsFeatures \<times> GstStructure) list \<Rightarrow>
   GstCapsFeatures \<times> GstStructure \<Rightarrow> (GstCapsFeatures \<times> GstStructure) list" where
  "intersect_entry e1 dest e2 =
     (if gst_caps_features_is_equal (fst e1) (fst e2) then
        (case gst_structure_intersect (snd e1) (snd e2) of
           None \<Rightarrow> dest
         | Some istruct \<Rightarrow>
             gst_caps_merge_structure_full dest
               (if fst e1 = FeaturesAny then fst e2 else fst e1, istruct))
      else dest)"

fun gst_caps_intersect_first :: "GstCaps \<Rightarrow> GstCaps \<Rightarrow> GstCaps" where
  "gst_caps_intersect_first CapsAny c2 = (if c2 = Caps [] then Caps [] else c2)"
| "gst_caps_intersect_first (Caps es1) CapsAny = Caps es1"
| "gst_caps_intersect_first (Caps es1) (Caps es2) =
     (if es1 = [] \<or> es2 = [] then Caps []
      else Caps (foldl (\<lambda>dest e1. foldl (intersect_entry e1) dest es2) [] es1))"

text \<open>gst_caps_is_fixed: exactly one entry, its features not ANY, every field fixed.\<close>

fun gst_caps_is_fixed :: "GstCaps \<Rightarrow> bool" where
  "gst_caps_is_fixed CapsAny = False"
| "gst_caps_is_fixed (Caps [(fs, s)]) =
     (fs \<noteq> FeaturesAny \<and> list_all (\<lambda>(k, v). gst_value_is_fixed v) (snd s))"
| "gst_caps_is_fixed (Caps es) = False"

fun gst_caps_is_subset :: "GstCaps \<Rightarrow> GstCaps \<Rightarrow> bool" where
  "gst_caps_is_subset sub CapsAny = True"
| "gst_caps_is_subset CapsAny (Caps es2) = False"
| "gst_caps_is_subset (Caps es1) (Caps es2) =
     list_all (\<lambda>e1. list_ex (\<lambda>e2. gst_caps_features_is_equal (fst e1) (fst e2) \<and>
                                    gst_structure_is_subset (snd e1) (snd e2)) es2) es1"

text \<open>gst_caps_is_equal answers TRUE at once for one and the same caps object and
  otherwise compares the two as sets, each a subset of the other. The model has values
  and no pointers: the same value stands for the same object.\<close>

definition gst_caps_is_equal :: "GstCaps \<Rightarrow> GstCaps \<Rightarrow> bool" where
  "gst_caps_is_equal c1 c2 = (c1 = c2 \<or> (gst_caps_is_subset c1 c2 \<and> gst_caps_is_subset c2 c1))"


section \<open>Video info, memories and buffers\<close>

text \<open>
  Of GstVideoInfo the upload object reads the plane count of the format description
  (GST_VIDEO_INFO_N_PLANES, through the finfo pointer), the multiview mode and the
  number of views. A NULL finfo (an info that was never filled) is \<open>None\<close>. Sizes,
  strides and offsets decide nothing here and are left out.
\<close>

datatype GstVideoMultiviewMode =
    GST_VIDEO_MULTIVIEW_MODE_NONE
  | GST_VIDEO_MULTIVIEW_MODE_MONO
  | GST_VIDEO_MULTIVIEW_MODE_LEFT
  | GST_VIDEO_MULTIVIEW_MODE_RIGHT
  | GST_VIDEO_MULTIVIEW_MODE_SIDE_BY_SIDE
  | GST_VIDEO_MULTIVIEW_MODE_TOP_BOTTOM
  | GST_VIDEO_MULTIVIEW_MODE_FRAME_BY_FRAME
  | GST_VIDEO_MULTIVIEW_MODE_SEPARATED

record GstVideoInfo =
  finfo_n_planes :: "nat option"
  multiview_mode :: GstVideoMultiviewMode
  views :: int

datatype fault = NullPointer | InvalidPointer | InvalidCast

text \<open>
  The count every strategy derives from the input info: the planes, times the views in
  separated multiview mode. The C variable is a guint, so the product is taken modulo
  \<open>2 ^ 32\<close>.
\<close>

definition expected_memories :: "GstVideoInfo \<Rightarrow> fault + nat" where
  "expected_memories info =
     (case finfo_n_planes info of
        None \<Rightarrow> Inl NullPointer
      | Some n \<Rightarrow>
          if multiview_mode info = GST_VIDEO_MULTIVIEW_MODE_SEPARATED
          then Inr (nat ((int n * views info) mod 2 ^ 32))
          else Inr n)"

datatype GstMemory = GstGLMemory nat | GstEGLImageMemory | GstSystemMemory

fun gst_is_gl_memory :: "GstMemory \<Rightarrow> bool" where
  "gst_is_gl_memory (GstGLMemory c) = True"
| "gst_is_gl_memory m = False"

fun gst_is_egl_image_memory :: "GstMemory \<Rightarrow> bool" where
  "gst_is_egl_image_memory GstEGLImageMemory = True"
| "gst_is_egl_image_memory m = False"

datatype GstVideoGLTextureType =
    GST_VIDEO_GL_TEXTURE_TYPE_LUMINANCE
  | GST_VIDEO_GL_TEXTURE_TYPE_LUMINANCE_ALPHA
  | GST_VIDEO_GL_TEXTURE_TYPE_RGB16
  | GST_VIDEO_GL_TEXTURE_TYPE_RGB
  | GST_VIDEO_GL_TEXTURE_TYPE_RGBA
  | GST_VIDEO_GL_TEXTURE_TYPE_R
  | GST_VIDEO_GL_TEXTURE_TYPE_RG

datatype GstVideoGLTextureOrientation =
    GST_VIDEO_GL_TEXTURE_ORIENTATION_X_NORMAL_Y_NORMAL
  | GST_VIDEO_GL_TEXTURE_ORIENTATION_X_NORMAL_Y_FLIP
  | GST_VIDEO_GL_TEXTURE_ORIENTATION_X_FLIP_Y_NORMAL
  | GST_VIDEO_GL_TEXTURE_ORIENTATION_X_FLIP_Y_FLIP

text \<open>The upload meta a producer attaches to a buffer: \<open>texture_type_0\<close> is element 0 of
  its texture_type array (the only one read), \<open>upload_ok\<close> is what its upload callback
  answers when gst_video_gl_texture_upload_meta_upload calls it.\<close>

record GstVideoGLTextureUploadMeta =
  texture_orientation :: GstVideoGLTextureOrientation
  texture_type_0 :: GstVideoGLTextureType
  upload_ok :: bool

text \<open>A buffer: its payload (the memories), its flags and timestamps, and the upload
  meta when it has one.\<close>

record GstBuffer =
  memories :: "GstMemory list"
  flags :: "32 word"
  pts :: "64 word"
  dts :: "64 word"
  duration :: "64 word"
  offset :: "64 word"
  offset_end :: "64 word"
  upload_meta :: "GstVideoGLTextureUploadMeta option"

definition GST_CLOCK_TIME_NONE :: "64 word" where
  "GST_CLOCK_TIME_NONE = - 1"

definition GST_BUFFER_OFFSET_NONE :: "64 word" where
  "GST_BUFFER_OFFSET_NONE = - 1"

text \<open>gst_buffer_new gives an empty buffer; given memories, the buffer after they were
  appended.\<close>

definition new_buffer :: "GstMemory list \<Rightarrow> GstBuffer" where
  "new_buffer ms =
     \<lparr>memories = ms, flags = 0, pts = GST_CLOCK_TIME_NONE, dts = GST_CLOCK_TIME_NONE,
      duration = GST_CLOCK_TIME_NONE, offset = GST_BUFFER_OFFSET_NONE,
      offset_end = GST_BUFFER_OFFSET_NONE, upload_meta = None\<rparr>"

text \<open>gst_buffer_copy_into (dest, src, GST_BUFFER_COPY_FLAGS | GST_BUFFER_COPY_TIMESTAMPS,
  0, -1): flags and the five timestamp fields of src go to dest; memories and metas of
  dest stay, as neither GST_BUFFER_COPY_MEMORY nor GST_BUFFER_COPY_META is asked for.\<close>

definition gst_buffer_copy_into :: "GstBuffer \<Rightarrow> GstBuffer \<Rightarrow> GstBuffer" where
  "gst_buffer_copy_into dest src =
     dest\<lparr>flags := flags src, pts := pts src, dts := dts src, duration := duration src,
          offset := offset src, offset_end := offset_end src\<rparr>"

section \<open>The upload methods and the upload object\<close>

text \<open>The four UploadMethod descriptors and the instance struct each one allocates.
  Of the instance structs only RawUpload carries state that outlives a call (in_frame,
  the mapped input frame: the buffer it maps and the info of the mapping); the reference
  count of the mapped frame, the texture ids of GLUploadMeta and the scratch pointers
  of EGLImageUpload are left out.\<close>

datatype UploadMethod = gl_memory_upload | egl_image_upload | upload_meta_upload | raw_data_upload

record RawUploadFrame =
  frame_buffer :: nat
  frame_info :: GstVideoInfo

datatype impl = GLMemoryUpload | EGLImageUpload | GLUploadMeta | RawUpload "RawUploadFrame option"

text \<open>The table upload_methods has the EGL-image entry only when the build configuration
  defines GST_GL_HAVE_PLATFORM_EGL. The configuration modelled is the one with it, in
  which all four methods are compiled in.\<close>

definition GST_GL_HAVE_PLATFORM_EGL :: bool where
  "GST_GL_HAVE_PLATFORM_EGL = True"

definition upload_methods :: "UploadMethod list" where
  "upload_methods =
     [gl_memory_upload] @ (if GST_GL_HAVE_PLATFORM_EGL then [egl_image_upload] else []) @
     [upload_meta_upload, raw_data_upload]"

text \<open>Modelled from the spec: the enum GstGLUploadReturn is declared in gstglupload.h,
  which is not among the sources. The specification gives the results of perform as
  Done, RuntimeIncompatible and Error (section 4.1); the constructors carry the names
  that gstglupload.c uses for them (GST_GL_UPLOAD_DONE,
  GST_GL_UPLOAD_UNSHARED_GL_CONTEXT, GST_GL_UPLOAD_ERROR, and
  GST_GL_UPLOAD_UNSUPPORTED, which this file never produces).
  gst_gl_upload_perform_with_buffer has this enum as its return type and leaves through
  \<open>return FALSE\<close> on failure: RETURN_FALSE is that value, 0, which the code treats as
  different from GST_GL_UPLOAD_DONE and which is kept apart from the enumerators
  here.\<close>

datatype GstGLUploadReturn =
    GST_GL_UPLOAD_DONE
  | GST_GL_UPLOAD_ERROR
  | GST_GL_UPLOAD_UNSUPPORTED
  | GST_GL_UPLOAD_UNSHARED_GL_CONTEXT
  | RETURN_FALSE

text \<open>
  The calls the object makes through the method table, in order (new and free with the
  address of the instance, accept and perform with the instance pointer, the buffer and
  the answer): a record kept beside the state so that theorems can speak about which
  strategy was asked what. The C code has no such field.
\<close>

datatype event =
    EvNew UploadMethod nat
  | EvFree UploadMethod nat
  | EvAccept UploadMethod "nat option" nat bool
  | EvPerform UploadMethod "nat option" nat GstGLUploadReturn

text \<open>
  GstGLUpload with its private struct, and the two stores its pointers point into: the
  live method instances by address and the buffers by address. \<open>method_desc\<close> is the
  field method of the private struct, \<open>gl_context\<close> the field context of the object.
\<close>

record GstGLUpload =
  gl_context :: nat
  in_info :: GstVideoInfo
  out_info :: GstVideoInfo
  in_caps :: "GstCaps option"
  out_caps :: "GstCaps option"
  upload_impl :: "nat list"
  method_desc :: "UploadMethod option"
  method_impl :: "nat option"
  method_i :: nat
  impls :: "(nat \<times> impl) list"
  next_impl :: nat
  buffers :: "GstBuffer list"
  calls :: "event list"

text \<open>Functions of other libraries and of files outside this one, taken as parameters:
  gst_video_info_from_caps (NULL-safe result: \<open>None\<close> when it answers FALSE and leaves
  the info alone), gst_video_frame_map (the info of the mapped frame, or \<open>None\<close> when
  mapping fails), gst_gl_context_can_share, and the memories that
  gst_gl_memory_setup_buffer and gst_gl_memory_setup_wrapped create for a context and
  an info.\<close>

record externals =
  gst_video_info_from_caps :: "GstCaps \<Rightarrow> GstVideoInfo option"
  gst_video_frame_map :: "GstVideoInfo \<Rightarrow> GstBuffer \<Rightarrow> GstVideoInfo option"
  gst_gl_context_can_share :: "nat \<Rightarrow> nat \<Rightarrow> bool"
  gst_gl_memory_setup_buffer :: "nat \<Rightarrow> GstVideoInfo \<Rightarrow> GstMemory list"
  gst_gl_memory_setup_wrapped :: "nat \<Rightarrow> GstVideoInfo \<Rightarrow> GstMemory list"

definition initial_impl :: "UploadMethod \<Rightarrow> impl" where
  "initial_impl m =
     (case m of gl_memory_upload \<Rightarrow> GLMemoryUpload
      | egl_image_upload \<Rightarrow> EGLImageUpload
      | upload_meta_upload \<Rightarrow> GLUploadMeta
      | raw_data_upload \<Rightarrow> RawUpload None)"

text \<open>method->new (upload): a zeroed instance struct at a fresh address.\<close>

definition method_new :: "UploadMethod \<Rightarrow> GstGLUpload \<Rightarrow> nat \<times> GstGLUpload" where
  "method_new m s =
     (next_impl s,
      s\<lparr>impls := impls s @ [(next_impl s, initial_impl m)],
        next_impl := Suc (next_impl s),
        calls := calls s @ [EvNew m (next_impl s)]\<rparr>)"

text \<open>method->free (impl): the instance is gone from the store. Every free function
  of the file tolerates NULL (g_free, or an argument check that returns).\<close>

definition method_free :: "UploadMethod \<Rightarrow> nat option \<Rightarrow> GstGLUpload \<Rightarrow> GstGLUpload" where
  "method_free m impl s =
     (case impl of
        None \<Rightarrow> s
      | Some p \<Rightarrow> s\<lparr>impls := filter (\<lambda>e. fst e \<noteq> p) (impls s),
                     calls := calls s @ [EvFree m p]\<rparr>)"

text \<open>The guarded call \<open>if (method_impl) method->free (method_impl)\<close>; a NULL method
  pointer with an instance set would be a NULL dereference.\<close>

definition free_current :: "GstGLUpload \<Rightarrow> fault + GstGLUpload" where
  "free_current s =
     (case method_impl s of
        None \<Rightarrow> Inr s
      | Some p \<Rightarrow> (case method_desc s of
                    None \<Rightarrow> Inl NullPointer
                  | Some m \<Rightarrow> Inr (method_free m (Some p) s)))"

subsection \<open>gst_gl_upload_new\<close>

fun new_all :: "UploadMethod list \<Rightarrow> GstGLUpload \<Rightarrow> GstGLUpload" where
  "new_all [] s = s"
| "new_all (m # ms) s =
     (case method_new m s of (p, s') \<Rightarrow> new_all ms (s'\<lparr>upload_impl := upload_impl s' @ [p]\<rparr>))"

definition zeroed_info :: GstVideoInfo where
  "zeroed_info = \<lparr>finfo_n_planes = None, multiview_mode = GST_VIDEO_MULTIVIEW_MODE_MONO, views = 0\<rparr>"

definition gst_gl_upload_new :: "nat \<Rightarrow> GstGLUpload" where
  "gst_gl_upload_new ctx =
     new_all upload_methods
       \<lparr>gl_context = ctx, in_info = zeroed_info, out_info = zeroed_info,
        in_caps = None, out_caps = None, upload_impl = [],
        method_desc = None, method_impl = None, method_i = 0,
        impls = [], next_impl = 0, buffers = [], calls = []\<rparr>"

subsection \<open>gst_gl_upload_set_caps\<close>

definition set_info :: "GstVideoInfo option \<Rightarrow> GstVideoInfo \<Rightarrow> GstVideoInfo" where
  "set_info r old = (case r of None \<Rightarrow> old | Some i \<Rightarrow> i)"

definition gst_gl_upload_set_caps_unlocked ::
  "externals \<Rightarrow> GstGLUpload \<Rightarrow> GstCaps \<Rightarrow> GstCaps \<Rightarrow> fault + (bool \<times> GstGLUpload)" where
  "gst_gl_upload_set_caps_unlocked E s new_in new_out =
     (if \<not> gst_caps_is_fixed new_in then Inr (False, s)
      else if (case (in_caps s, out_caps s) of
                 (Some ic, Some oc) \<Rightarrow> gst_caps_is_equal ic new_in \<and> gst_caps_is_equal oc new_out
               | _ \<Rightarrow> False)
      then Inr (True, s)
      else
        (let s1 = s\<lparr>in_caps := Some new_in, out_caps := Some new_out\<rparr>;
             s2 = s1\<lparr>in_info := set_info (gst_video_info_from_caps E new_in) (in_info s1),
                     out_info := set_info (gst_video_info_from_caps E new_out) (out_info s1)\<rparr>
         in (case free_current s2 of
               Inl f \<Rightarrow> Inl f
             | Inr s3 \<Rightarrow> Inr (True, s3\<lparr>method_impl := None, method_i := 0\<rparr>))))"

text \<open>gst_gl_upload_set_caps takes the object lock around the call; with one caller at
  a time the lock changes nothing.\<close>

definition gst_gl_upload_set_caps ::
  "externals \<Rightarrow> GstGLUpload \<Rightarrow> GstCaps \<Rightarrow> GstCaps \<Rightarrow> fault + (bool \<times> GstGLUpload)" where
  "gst_gl_upload_set_caps E s new_in new_out = gst_gl_upload_set_caps_unlocked E s new_in new_out"


subsection \<open>The accept functions\<close>

text \<open>Following an instance pointer: NULL and a pointer to a freed instance are faults.\<close>

definition deref_impl :: "GstGLUpload \<Rightarrow> nat option \<Rightarrow> fault + impl" where
  "deref_impl s impl =
     (case impl of
        None \<Rightarrow> Inl NullPointer
      | Some p \<Rightarrow> (case map_of (impls s) p of None \<Rightarrow> Inl InvalidPointer | Some i \<Rightarrow> Inr i))"

definition store_impl :: "nat option \<Rightarrow> impl \<Rightarrow> GstGLUpload \<Rightarrow> GstGLUpload" where
  "store_impl impl v s =
     s\<lparr>impls := map (\<lambda>e. if Some (fst e) = impl then (fst e, v) else e) (impls s)\<rparr>"

definition gl_memory_upload_accept ::
  "GstGLUpload \<Rightarrow> nat option \<Rightarrow> nat option \<Rightarrow> GstCaps option \<Rightarrow> GstCaps option \<Rightarrow>
   fault + (bool \<times> GstGLUpload)" where
  "gl_memory_upload_accept s impl buffer ic oc =
     (if \<not> caps_has_feature oc GST_CAPS_FEATURE_MEMORY_GL_MEMORY then Inr (False, s)
      else if \<not> caps_has_feature ic GST_CAPS_FEATURE_MEMORY_GL_MEMORY \<and>
              \<not> caps_has_feature ic GST_CAPS_FEATURE_MEMORY_SYSTEM_MEMORY then Inr (False, s)
      else
        (case buffer of
           None \<Rightarrow> Inr (True, s)
         | Some b \<Rightarrow>
             (case deref_impl s impl of
                Inl f \<Rightarrow> Inl f
              | Inr u \<Rightarrow>
                  (case expected_memories (in_info s) of
                     Inl f \<Rightarrow> Inl f
                   | Inr expected \<Rightarrow>
                       if length (memories (buffers s ! b)) \<noteq> expected then Inr (False, s)
                       else Inr (list_all gst_is_gl_memory
                                   (take expected (memories (buffers s ! b))), s)))))"

definition egl_image_upload_accept ::
  "GstGLUpload \<Rightarrow> nat option \<Rightarrow> nat option \<Rightarrow> GstCaps option \<Rightarrow> GstCaps option \<Rightarrow>
   fault + (bool \<times> GstGLUpload)" where
  "egl_image_upload_accept s impl buffer ic oc =
     (let ret = True;
          ret = (if \<not> caps_has_feature ic GST_CAPS_FEATURE_MEMORY_EGL_IMAGE then False else ret);
          ret = (if \<not> caps_has_feature oc GST_CAPS_FEATURE_MEMORY_GL_MEMORY then False else ret)
      in if \<not> ret then Inr (False, s)
         else
           (case buffer of
              None \<Rightarrow> Inr (True, s)
            | Some b \<Rightarrow>
                (case deref_impl s impl of
                   Inl f \<Rightarrow> Inl f
                 | Inr u \<Rightarrow>
                     (case expected_memories (in_info s) of
                        Inl f \<Rightarrow> Inl f
                      | Inr expected \<Rightarrow>
                          if length (memories (buffers s ! b)) \<noteq> expected then Inr (False, s)
                          else Inr (list_all gst_is_egl_image_memory
                                      (take expected (memories (buffers s ! b))), s)))))"

text \<open>The accept function of the upload-meta method reads the instance pointer only to
  pass it to a logging macro, and never looks at the memories of the buffer.\<close>

definition upload_meta_upload_accept ::
  "GstGLUpload \<Rightarrow> nat option \<Rightarrow> nat option \<Rightarrow> GstCaps option \<Rightarrow> GstCaps option \<Rightarrow>
   fault + (bool \<times> GstGLUpload)" where
  "upload_meta_upload_accept s impl buffer ic oc =
     (let ret = True;
          ret = (if \<not> caps_has_feature ic GST_CAPS_FEATURE_META_GST_VIDEO_GL_TEXTURE_UPLOAD_META
                 then False else ret);
          ret = (if \<not> caps_has_feature oc GST_CAPS_FEATURE_MEMORY_GL_MEMORY then False else ret)
      in if \<not> ret then Inr (ret, s)
         else
           (case buffer of
              None \<Rightarrow> Inr (True, s)
            | Some b \<Rightarrow>
                (case upload_meta (buffers s ! b) of
                   None \<Rightarrow> Inr (False, s)
                 | Some meta \<Rightarrow>
                     if texture_type_0 meta \<noteq> GST_VIDEO_GL_TEXTURE_TYPE_RGBA then Inr (False, s)
                     else if texture_orientation meta \<noteq>
                               GST_VIDEO_GL_TEXTURE_ORIENTATION_X_NORMAL_Y_NORMAL
                     then Inr (False, s)
                     else Inr (True, s))))"

text \<open>_raw_upload_frame_new maps the buffer with the input info; on success the info of
  the mapped frame replaces the input info of the object, and the loop that recomputes
  its offsets reads the plane count through finfo.\<close>

definition raw_upload_frame_new ::
  "externals \<Rightarrow> GstGLUpload \<Rightarrow> nat option \<Rightarrow> fault + (RawUploadFrame option \<times> GstGLUpload)" where
  "raw_upload_frame_new E s buffer =
     (case buffer of
        None \<Rightarrow> Inr (None, s)
      | Some b \<Rightarrow>
          (case gst_video_frame_map E (in_info s) (buffers s ! b) of
             None \<Rightarrow> Inr (None, s)
           | Some fi \<Rightarrow>
               (case finfo_n_planes fi of
                  None \<Rightarrow> Inl NullPointer
                | Some n \<Rightarrow> Inr (Some \<lparr>frame_buffer = b, frame_info = fi\<rparr>, s\<lparr>in_info := fi\<rparr>))))"

definition raw_data_upload_accept ::
  "externals \<Rightarrow> GstGLUpload \<Rightarrow> nat option \<Rightarrow> nat option \<Rightarrow> GstCaps option \<Rightarrow> GstCaps option \<Rightarrow>
   fault + (bool \<times> GstGLUpload)" where
  "raw_data_upload_accept E s impl buffer ic oc =
     (if \<not> caps_has_feature oc GST_CAPS_FEATURE_MEMORY_GL_MEMORY then Inr (False, s)
      else
        (case deref_impl s impl of
           Inl f \<Rightarrow> Inl f
         | Inr (RawUpload old_frame) \<Rightarrow>
             (case raw_upload_frame_new E s buffer of
                Inl f \<Rightarrow> Inl f
              | Inr (fr, s') \<Rightarrow> Inr (fr \<noteq> None, store_impl impl (RawUpload fr) s'))
         | Inr other \<Rightarrow> Inl InvalidCast))"

definition method_accept ::
  "externals \<Rightarrow> UploadMethod \<Rightarrow> GstGLUpload \<Rightarrow> nat option \<Rightarrow> nat option \<Rightarrow>
   GstCaps option \<Rightarrow> GstCaps option \<Rightarrow> fault + (bool \<times> GstGLUpload)" where
  "method_accept E m s impl buffer ic oc =
     (case m of
        gl_memory_upload \<Rightarrow> gl_memory_upload_accept s impl buffer ic oc
      | egl_image_upload \<Rightarrow> egl_image_upload_accept s impl buffer ic oc
      | upload_meta_upload \<Rightarrow> upload_meta_upload_accept s impl buffer ic oc
      | raw_data_upload \<Rightarrow> raw_data_upload_accept E s impl buffer ic oc)"

subsection \<open>The perform functions\<close>

definition GST_GL_UPLOAD_MAX_PLANES :: nat where
  "GST_GL_UPLOAD_MAX_PLANES = 4 * 2"

text \<open>The loop of _gl_memory_upload_perform: \<open>Inr False\<close> is the early return of
  GST_GL_UPLOAD_UNSHARED_GL_CONTEXT. Each memory is read as a GstGLMemory without a
  check (accept made it).\<close>

fun gl_memory_transfer_all ::
  "externals \<Rightarrow> GstGLUpload \<Rightarrow> nat option \<Rightarrow> GstMemory list \<Rightarrow> fault + bool" where
  "gl_memory_transfer_all E s impl [] = Inr True"
| "gl_memory_transfer_all E s impl (mem # ms) =
     (case mem of
        GstGLMemory c \<Rightarrow>
          (case deref_impl s impl of
             Inl f \<Rightarrow> Inl f
           | Inr u \<Rightarrow>
               if \<not> gst_gl_context_can_share E (gl_context s) c then Inr False
               else gl_memory_transfer_all E s impl ms)
      | GstEGLImageMemory \<Rightarrow> Inl InvalidCast
      | GstSystemMemory \<Rightarrow> Inl InvalidCast)"

definition gl_memory_upload_perform ::
  "externals \<Rightarrow> GstGLUpload \<Rightarrow> nat option \<Rightarrow> nat \<Rightarrow>
   fault + (GstGLUploadReturn \<times> nat option \<times> GstGLUpload)" where
  "gl_memory_upload_perform E s impl b =
     (case gl_memory_transfer_all E s impl (memories (buffers s ! b)) of
        Inl f \<Rightarrow> Inl f
      | Inr shared \<Rightarrow>
          if \<not> shared then Inr (GST_GL_UPLOAD_UNSHARED_GL_CONTEXT, None, s)
          else Inr (GST_GL_UPLOAD_DONE, Some b, s))"

text \<open>_egl_image_upload_perform runs its work on the GL thread and waits for it: a new
  buffer with the memories made for the output info, then one texture binding per input
  memory, which reads the input memory as an EGL image and the output memory of the
  same index. gst_buffer_new never gives NULL, so the GST_GL_UPLOAD_ERROR exit of the
  function is not taken.\<close>

definition egl_image_upload_perform ::
  "externals \<Rightarrow> GstGLUpload \<Rightarrow> nat option \<Rightarrow> nat \<Rightarrow>
   fault + (GstGLUploadReturn \<times> nat option \<times> GstGLUpload)" where
  "egl_image_upload_perform E s impl b =
     (case deref_impl s impl of
        Inl f \<Rightarrow> Inl f
      | Inr u \<Rightarrow>
          (let out_mems = gst_gl_memory_setup_buffer E (gl_context s) (out_info s);
               in_mems = memories (buffers s ! b)
           in if \<not> list_all gst_is_egl_image_memory in_mems then Inl InvalidCast
              else if length out_mems < length in_mems then Inl NullPointer
              else Inr (GST_GL_UPLOAD_DONE, Some (length (buffers s)),
                        s\<lparr>buffers := buffers s @ [new_buffer out_mems]\<rparr>)))"

text \<open>_upload_meta_upload_perform: a new buffer with the memories made for the input
  info, the texture ids of its first max_planes memories, then the upload callback of
  the meta on the GL thread. A buffer without the meta makes
  gst_video_gl_texture_upload_meta_upload answer FALSE.\<close>

definition upload_meta_upload_perform ::
  "externals \<Rightarrow> GstGLUpload \<Rightarrow> nat option \<Rightarrow> nat \<Rightarrow>
   fault + (GstGLUploadReturn \<times> nat option \<times> GstGLUpload)" where
  "upload_meta_upload_perform E s impl b =
     (case deref_impl s impl of
        Inl f \<Rightarrow> Inl f
      | Inr u \<Rightarrow>
          (case expected_memories (in_info s) of
             Inl f \<Rightarrow> Inl f
           | Inr max_planes \<Rightarrow>
               (let out_mems = gst_gl_memory_setup_buffer E (gl_context s) (in_info s);
                    outbuf = length (buffers s);
                    s' = s\<lparr>buffers := buffers s @ [new_buffer out_mems]\<rparr>;
                    result = (case upload_meta (buffers s ! b) of
                                None \<Rightarrow> False | Some meta \<Rightarrow> upload_ok meta)
                in if length out_mems < min max_planes GST_GL_UPLOAD_MAX_PLANES
                   then Inl NullPointer
                   else if \<not> result then Inr (GST_GL_UPLOAD_ERROR, Some outbuf, s')
                   else Inr (GST_GL_UPLOAD_DONE, Some outbuf, s'))))"

text \<open>_raw_data_upload_perform wraps the planes of the frame that accept mapped, appends
  the first max_planes wrapped memories to a new buffer and gives the frame up. Its
  array in_tex has GST_GL_UPLOAD_MAX_PLANES slots. It has no exit but
  GST_GL_UPLOAD_DONE.\<close>

definition raw_data_upload_perform ::
  "externals \<Rightarrow> GstGLUpload \<Rightarrow> nat option \<Rightarrow> nat \<Rightarrow>
   fault + (GstGLUploadReturn \<times> nat option \<times> GstGLUpload)" where
  "raw_data_upload_perform E s impl b =
     (case deref_impl s impl of
        Inl f \<Rightarrow> Inl f
      | Inr (RawUpload in_frame) \<Rightarrow>
          (case expected_memories (in_info s) of
             Inl f \<Rightarrow> Inl f
           | Inr max_planes \<Rightarrow>
               (case in_frame of
                  None \<Rightarrow> Inl NullPointer
                | Some fr \<Rightarrow>
                    if GST_GL_UPLOAD_MAX_PLANES < max_planes then Inl InvalidPointer
                    else
                      (let in_tex = gst_gl_memory_setup_wrapped E (gl_context s) (in_info s);
                           outbuf = length (buffers s);
                           s' = s\<lparr>buffers := buffers s @ [new_buffer (take max_planes in_tex)]\<rparr>
                       in Inr (GST_GL_UPLOAD_DONE, Some outbuf,
                               store_impl impl (RawUpload None) s'))))
      | Inr other \<Rightarrow> Inl InvalidCast)"

definition method_perform ::
  "externals \<Rightarrow> UploadMethod \<Rightarrow> GstGLUpload \<Rightarrow> nat option \<Rightarrow> nat \<Rightarrow>
   fault + (GstGLUploadReturn \<times> nat option \<times> GstGLUpload)" where
  "method_perform E m s impl b =
     (case m of
        gl_memory_upload \<Rightarrow> gl_memory_upload_perform E s impl b
      | egl_image_upload \<Rightarrow> egl_image_upload_perform E s impl b
      | upload_meta_upload \<Rightarrow> upload_meta_upload_perform E s impl b
      | raw_data_upload \<Rightarrow> raw_data_upload_perform E s impl b)"

subsection \<open>_upload_find_method and gst_gl_upload_perform_with_buffer\<close>

definition upload_find_method :: "GstGLUpload \<Rightarrow> fault + (bool \<times> GstGLUpload)" where
  "upload_find_method s =
     (if length upload_methods \<le> method_i s then Inr (False, s)
      else
        (case free_current s of
           Inl f \<Rightarrow> Inl f
         | Inr s1 \<Rightarrow>
             (let s2 = s1\<lparr>method_impl := None\<rparr>;
                  m = upload_methods ! method_i s2;
                  s3 = s2\<lparr>method_desc := Some m\<rparr>
              in case method_new m s3 of
                   (p, s4) \<Rightarrow> Inr (True, s4\<lparr>method_impl := Some p, method_i := Suc (method_i s4)\<rparr>))))"

text \<open>What one pass from the label \<open>restart\<close> ends in: a jump back to the label, or a
  return from the function (with the out buffer when the return is
  GST_GL_UPLOAD_DONE).\<close>

datatype pass = Restart GstGLUpload | Leave GstGLUploadReturn "nat option" GstGLUpload

text \<open>The macro NEXT_METHOD.\<close>

definition NEXT_METHOD :: "GstGLUpload \<Rightarrow> fault + pass" where
  "NEXT_METHOD s =
     (case upload_find_method s of
        Inl f \<Rightarrow> Inl f
      | Inr (found, s') \<Rightarrow> if \<not> found then Inr (Leave RETURN_FALSE None s') else Inr (Restart s'))"

definition record_call :: "event \<Rightarrow> GstGLUpload \<Rightarrow> GstGLUpload" where
  "record_call e s = s\<lparr>calls := calls s @ [e]\<rparr>"

text \<open>The branch for GST_GL_UPLOAD_UNSHARED_GL_CONTEXT: free the instance through the
  current method, make &_raw_data_upload the current method, create its instance.
  method_i is not touched. (The method pointer is not NULL here: perform was just
  called through it.)\<close>

definition unshared_fallback :: "GstGLUpload \<Rightarrow> GstGLUpload" where
  "unshared_fallback s2 =
     (let s3 = (case method_desc s2 of None \<Rightarrow> s2 | Some m \<Rightarrow> method_free m (method_impl s2) s2);
          s4 = s3\<lparr>method_desc := Some raw_data_upload\<rparr>
      in case method_new raw_data_upload s4 of (p, s5) \<Rightarrow> s5\<lparr>method_impl := Some p\<rparr>)"

definition restart_pass :: "externals \<Rightarrow> GstGLUpload \<Rightarrow> nat \<Rightarrow> fault + pass" where
  "restart_pass E s b =
     (case method_desc s of
        None \<Rightarrow> Inl NullPointer
      | Some m \<Rightarrow>
          (case method_accept E m s (method_impl s) (Some b) (in_caps s) (out_caps s) of
             Inl f \<Rightarrow> Inl f
           | Inr (accepted, sa) \<Rightarrow>
               (let s1 = record_call (EvAccept m (method_impl s) b accepted) sa
                in if \<not> accepted then NEXT_METHOD s1
                   else
                     (case method_perform E m s1 (method_impl s1) b of
                        Inl f \<Rightarrow> Inl f
                      | Inr (ret, outbuf, sp) \<Rightarrow>
                          (let s2 = record_call (EvPerform m (method_impl s1) b ret) sp
                           in if ret = GST_GL_UPLOAD_UNSHARED_GL_CONTEXT then
                                Inr (Restart (unshared_fallback s2))
                              else if ret = GST_GL_UPLOAD_DONE then
                                Inr (Leave ret outbuf s2)
                              else
                                (let s3 = method_free m (method_impl s2) s2
                                 in NEXT_METHOD (s3\<lparr>method_impl := None\<rparr>)))))))"

definition passes_left :: "GstGLUpload \<Rightarrow> nat" where
  "passes_left s =
     2 * (length upload_methods - method_i s) +
     (if method_desc s = Some gl_memory_upload then 1 else 0)"

function upload_restart ::
  "externals \<Rightarrow> GstGLUpload \<Rightarrow> nat \<Rightarrow> fault + (GstGLUploadReturn \<times> nat option \<times> GstGLUpload)" where
  "upload_restart E s b =
     (case restart_pass E s b of
        Inl f \<Rightarrow> Inl f
      | Inr (Leave ret outbuf s') \<Rightarrow> Inr (ret, outbuf, s')
      | Inr (Restart s') \<Rightarrow> upload_restart E s' b)"
  by pat_completeness auto

text \<open>Every pass that jumps back to \<open>restart\<close> lowers \<open>passes_left\<close>: NEXT_METHOD
  raises method_i, and only the perform function of the GL-memory method can answer
  GST_GL_UPLOAD_UNSHARED_GL_CONTEXT, after which the raw-data method is current.\<close>

lemma method_accept_keeps:
  assumes "method_accept E m s impl buffer ic oc = Inr (r, s')"
  shows "method_i s' = method_i s \<and> method_desc s' = method_desc s \<and>
         method_impl s' = method_impl s \<and> calls s' = calls s \<and>
         buffers s' = buffers s \<and> map fst (impls s') = map fst (impls s) \<and>
         upload_impl s' = upload_impl s \<and> next_impl s' = next_impl s \<and>
         in_caps s' = in_caps s \<and> out_caps s' = out_caps s \<and> gl_context s' = gl_context s"
  using assms
  by (cases m)
     (auto simp: method_accept_def gl_memory_upload_accept_def egl_image_upload_accept_def
        upload_meta_upload_accept_def raw_data_upload_accept_def raw_upload_frame_new_def
        store_impl_def Let_def comp_def
        split: if_splits option.splits sum.splits impl.splits prod.splits)

lemma method_perform_keeps:
  assumes "method_perform E m s impl b = Inr (r, ob, s')"
  shows "method_i s' = method_i s \<and> method_desc s' = method_desc s \<and>
         method_impl s' = method_impl s \<and> calls s' = calls s \<and>
         map fst (impls s') = map fst (impls s) \<and>
         upload_impl s' = upload_impl s \<and> next_impl s' = next_impl s \<and>
         in_caps s' = in_caps s \<and> out_caps s' = out_caps s \<and> gl_context s' = gl_context s \<and>
         in_info s' = in_info s \<and>
         (r = GST_GL_UPLOAD_UNSHARED_GL_CONTEXT \<longrightarrow> m = gl_memory_upload) \<and>
         r \<noteq> RETURN_FALSE \<and> r \<noteq> GST_GL_UPLOAD_UNSUPPORTED"
  using assms
  by (cases m)
     (auto simp: method_perform_def gl_memory_upload_perform_def egl_image_upload_perform_def
        upload_meta_upload_perform_def raw_data_upload_perform_def
        store_impl_def Let_def comp_def
        split: if_splits option.splits sum.splits impl.splits prod.splits)

lemma upload_find_method_found:
  assumes "upload_find_method s = Inr (True, s')"
  shows "method_i s < length upload_methods \<and> method_i s' = Suc (method_i s) \<and>
         method_desc s' = Some (upload_methods ! method_i s)"
  using assms
  by (auto simp: upload_find_method_def free_current_def method_free_def method_new_def Let_def
        split: if_splits option.splits sum.splits prod.splits)

lemma NEXT_METHOD_Restart:
  assumes "NEXT_METHOD s = Inr (Restart s')"
  shows "method_i s < length upload_methods \<and> method_i s' = Suc (method_i s)"
  using assms upload_find_method_found[of s s']
  by (auto simp: NEXT_METHOD_def split: sum.splits prod.splits if_splits)

lemma unshared_fallback_fields:
  "method_desc (unshared_fallback s) = Some raw_data_upload \<and>
   method_i (unshared_fallback s) = method_i s \<and>
   method_impl (unshared_fallback s) = Some (next_impl s)"
  by (auto simp: unshared_fallback_def method_new_def method_free_def Let_def split: option.splits)

lemma restart_pass_cases:
  assumes "restart_pass E s b = Inr r"
  obtains
    (rejected) m sa where "method_desc s = Some m"
      "method_accept E m s (method_impl s) (Some b) (in_caps s) (out_caps s) = Inr (False, sa)"
      "NEXT_METHOD (record_call (EvAccept m (method_impl s) b False) sa) = Inr r"
  | (unshared) m sa outbuf sp where "method_desc s = Some m"
      "method_accept E m s (method_impl s) (Some b) (in_caps s) (out_caps s) = Inr (True, sa)"
      "method_perform E m (record_call (EvAccept m (method_impl s) b True) sa) (method_impl s) b
       = Inr (GST_GL_UPLOAD_UNSHARED_GL_CONTEXT, outbuf, sp)"
      "r = Restart (unshared_fallback
             (record_call (EvPerform m (method_impl s) b GST_GL_UPLOAD_UNSHARED_GL_CONTEXT) sp))"
  | (finished) m sa outbuf sp where "method_desc s = Some m"
      "method_accept E m s (method_impl s) (Some b) (in_caps s) (out_caps s) = Inr (True, sa)"
      "method_perform E m (record_call (EvAccept m (method_impl s) b True) sa) (method_impl s) b
       = Inr (GST_GL_UPLOAD_DONE, outbuf, sp)"
      "r = Leave GST_GL_UPLOAD_DONE outbuf
             (record_call (EvPerform m (method_impl s) b GST_GL_UPLOAD_DONE) sp)"
  | (failed) m sa ret outbuf sp where "method_desc s = Some m"
      "method_accept E m s (method_impl s) (Some b) (in_caps s) (out_caps s) = Inr (True, sa)"
      "method_perform E m (record_call (EvAccept m (method_impl s) b True) sa) (method_impl s) b
       = Inr (ret, outbuf, sp)"
      "ret \<noteq> GST_GL_UPLOAD_UNSHARED_GL_CONTEXT" "ret \<noteq> GST_GL_UPLOAD_DONE"
      "NEXT_METHOD ((method_free m (method_impl s)
                      (record_call (EvPerform m (method_impl s) b ret) sp))\<lparr>method_impl := None\<rparr>)
       = Inr r"
proof -
  from assms obtain m where m: "method_desc s = Some m"
    by (auto simp: restart_pass_def split: option.splits)
  from assms m obtain accepted sa where
    acc: "method_accept E m s (method_impl s) (Some b) (in_caps s) (out_caps s) = Inr (accepted, sa)"
    by (auto simp: restart_pass_def split: sum.splits)
  have ia: "method_impl sa = method_impl s"
    using method_accept_keeps[OF acc] by simp
  show thesis
  proof (cases accepted)
    case False
    with assms m acc show thesis
      by (intro rejected[of m sa]) (simp_all add: restart_pass_def Let_def)
  next
    case True
    with assms m acc ia obtain ret outbuf sp where
      perf: "method_perform E m (record_call (EvAccept m (method_impl s) b True) sa) (method_impl s) b
             = Inr (ret, outbuf, sp)"
      by (auto simp: restart_pass_def Let_def record_call_def split: sum.splits)
    have ip: "method_impl sp = method_impl s"
      using method_perform_keeps[OF perf] ia by (simp add: record_call_def)
    from assms m acc True perf ia ip show thesis
      by (cases "ret = GST_GL_UPLOAD_UNSHARED_GL_CONTEXT"; cases "ret = GST_GL_UPLOAD_DONE")
         (auto simp: restart_pass_def Let_def record_call_def
               intro: unshared[of m sa outbuf sp] finished[of m sa outbuf sp]
                      failed[of m sa ret outbuf sp])
  qed
qed

lemma record_call_fields [simp]:
  "method_i (record_call e s) = method_i s"
  "method_desc (record_call e s) = method_desc s"
  "method_impl (record_call e s) = method_impl s"
  "impls (record_call e s) = impls s"
  "buffers (record_call e s) = buffers s"
  "upload_impl (record_call e s) = upload_impl s"
  "next_impl (record_call e s) = next_impl s"
  "in_caps (record_call e s) = in_caps s"
  "out_caps (record_call e s) = out_caps s"
  "in_info (record_call e s) = in_info s"
  "out_info (record_call e s) = out_info s"
  "gl_context (record_call e s) = gl_context s"
  "calls (record_call e s) = calls s @ [e]"
  by (simp_all add: record_call_def)

lemma restart_pass_decreases:
  assumes "restart_pass E s b = Inr (Restart s')"
  shows "passes_left s' < passes_left s"
  using assms
proof (cases rule: restart_pass_cases)
  case (rejected m sa)
  from NEXT_METHOD_Restart[OF rejected(3)] method_accept_keeps[OF rejected(2)]
  show ?thesis by (auto simp: passes_left_def)
next
  case (unshared m sa outbuf sp)
  from method_perform_keeps[OF unshared(3)] have "m = gl_memory_upload" by simp
  with unshared method_perform_keeps[OF unshared(3)] method_accept_keeps[OF unshared(2)]
  show ?thesis by (simp add: passes_left_def unshared_fallback_fields)
next
  case (finished m sa outbuf sp)
  then show ?thesis by simp
next
  case (failed m sa ret outbuf sp)
  from NEXT_METHOD_Restart[OF failed(6)] method_perform_keeps[OF failed(3)]
    method_accept_keeps[OF failed(2)]
  show ?thesis by (auto simp: passes_left_def method_free_def split: option.splits)
qed

termination upload_restart
  by (relation "measure (\<lambda>(E, s, b). passes_left s)") (auto dest: restart_pass_decreases)

text \<open>gst_gl_upload_perform_with_buffer. GST_IS_BUFFER fails for an address that holds no
  buffer. \<open>find_first_method\<close> is the statement before the label (the result of
  _upload_find_method is ignored there, as in the source), \<open>copy_metadata\<close> the
  statement after the loop. The out pointer is written on the GST_GL_UPLOAD_DONE path
  only. The object lock is held for the whole call.\<close>

definition find_first_method :: "GstGLUpload \<Rightarrow> fault + GstGLUpload" where
  "find_first_method s =
     (if method_impl s = None
      then (case upload_find_method s of Inl f \<Rightarrow> Inl f | Inr (found, s0) \<Rightarrow> Inr s0)
      else Inr s)"

definition copy_metadata :: "nat \<Rightarrow> nat \<Rightarrow> GstGLUpload \<Rightarrow> GstGLUpload" where
  "copy_metadata buffer outbuf s =
     (if buffer \<noteq> outbuf
      then s\<lparr>buffers := (buffers s)
                [outbuf := gst_buffer_copy_into (buffers s ! outbuf) (buffers s ! buffer)]\<rparr>
      else s)"

definition gst_gl_upload_perform_with_buffer ::
  "externals \<Rightarrow> GstGLUpload \<Rightarrow> nat \<Rightarrow> fault + (GstGLUploadReturn \<times> nat option \<times> GstGLUpload)" where
  "gst_gl_upload_perform_with_buffer E s buffer =
     (if \<not> buffer < length (buffers s) then Inr (RETURN_FALSE, None, s)
      else
        (case find_first_method s of
           Inl f \<Rightarrow> Inl f
         | Inr s0 \<Rightarrow>
             (case upload_restart E s0 buffer of
                Inl f \<Rightarrow> Inl f
              | Inr (ret, outbuf, s1) \<Rightarrow>
                  if ret \<noteq> GST_GL_UPLOAD_DONE then Inr (ret, None, s1)
                  else
                    (case outbuf of
                       None \<Rightarrow> Inl InvalidPointer
                     | Some ob \<Rightarrow> Inr (ret, Some ob, copy_metadata buffer ob s1)))))"

text \<open>A buffer of the pipeline comes into being at the next free address.\<close>

definition buffer_arrives :: "GstBuffer \<Rightarrow> GstGLUpload \<Rightarrow> GstGLUpload" where
  "buffer_arrives buf s = s\<lparr>buffers := buffers s @ [buf]\<rparr>"

section \<open>gst_gl_upload_transform_caps\<close>

datatype GstPadDirection = GST_PAD_UNKNOWN | GST_PAD_SRC | GST_PAD_SINK

text \<open>_set_caps_features: a copy of the caps in which every entry has the one named
  feature. The ANY caps has no entries and stays as it is.\<close>

fun set_caps_features :: "GstCaps \<Rightarrow> string \<Rightarrow> GstCaps" where
  "set_caps_features CapsAny feature_name = CapsAny"
| "set_caps_features (Caps es) feature_name =
     Caps (map (\<lambda>e. (Features [feature_name], snd e)) es)"

text \<open>gst_caps_set_simple sets a field in every structure (replacing the value of a field
  that is there, appending the field otherwise); gst_structure_remove_fields drops a
  field; \<open>remove_field_everywhere\<close> is the loop over the structures that the transform
  functions run.\<close>

definition gst_structure_set_value :: "GstStructure \<Rightarrow> string \<Rightarrow> GValue \<Rightarrow> GstStructure" where
  "gst_structure_set_value s k v =
     (fst s,
      if k \<in> fst ` set (snd s)
      then map (\<lambda>f. if fst f = k then (k, v) else f) (snd s)
      else snd s @ [(k, v)])"

fun gst_caps_set_simple :: "GstCaps \<Rightarrow> string \<Rightarrow> GValue \<Rightarrow> GstCaps" where
  "gst_caps_set_simple CapsAny k v = CapsAny"
| "gst_caps_set_simple (Caps es) k v = Caps (map (\<lambda>e. (fst e, gst_structure_set_value (snd e) k v)) es)"

definition gst_structure_remove_fields :: "GstStructure \<Rightarrow> string \<Rightarrow> GstStructure" where
  "gst_structure_remove_fields s k = (fst s, filter (\<lambda>f. fst f \<noteq> k) (snd s))"

fun remove_field_everywhere :: "GstCaps \<Rightarrow> string \<Rightarrow> GstCaps" where
  "remove_field_everywhere CapsAny k = CapsAny"
| "remove_field_everywhere (Caps es) k =
     Caps (map (\<lambda>e. (fst e, gst_structure_remove_fields (snd e) k)) es)"

text \<open>The transform_caps function of each method. The context argument is unused in
  all four. Every direction other than GST_PAD_SINK takes the else branch.\<close>

definition gl_memory_upload_transform_caps :: "nat \<Rightarrow> GstPadDirection \<Rightarrow> GstCaps \<Rightarrow> GstCaps" where
  "gl_memory_upload_transform_caps ctx direction caps =
     set_caps_features caps GST_CAPS_FEATURE_MEMORY_GL_MEMORY"

definition egl_image_upload_transform_caps :: "nat \<Rightarrow> GstPadDirection \<Rightarrow> GstCaps \<Rightarrow> GstCaps" where
  "egl_image_upload_transform_caps ctx direction caps =
     (if direction = GST_PAD_SINK then set_caps_features caps GST_CAPS_FEATURE_MEMORY_GL_MEMORY
      else
        (let ret = set_caps_features caps GST_CAPS_FEATURE_MEMORY_EGL_IMAGE;
             ret = gst_caps_set_simple ret ''format'' (VFixed ''RGBA'')
         in remove_field_everywhere ret ''texture-target''))"

definition upload_meta_upload_transform_caps :: "nat \<Rightarrow> GstPadDirection \<Rightarrow> GstCaps \<Rightarrow> GstCaps" where
  "upload_meta_upload_transform_caps ctx direction caps =
     (if direction = GST_PAD_SINK then set_caps_features caps GST_CAPS_FEATURE_MEMORY_GL_MEMORY
      else
        (let ret = set_caps_features caps GST_CAPS_FEATURE_META_GST_VIDEO_GL_TEXTURE_UPLOAD_META;
             ret = gst_caps_set_simple ret ''format'' (VFixed ''RGBA'')
         in remove_field_everywhere ret ''texture-target''))"

definition raw_data_upload_transform_caps :: "nat \<Rightarrow> GstPadDirection \<Rightarrow> GstCaps \<Rightarrow> GstCaps" where
  "raw_data_upload_transform_caps ctx direction caps =
     (if direction = GST_PAD_SINK then set_caps_features caps GST_CAPS_FEATURE_MEMORY_GL_MEMORY
      else
        (let ret = set_caps_features caps GST_CAPS_FEATURE_MEMORY_SYSTEM_MEMORY
         in remove_field_everywhere ret ''texture-target''))"

definition method_transform_caps ::
  "UploadMethod \<Rightarrow> nat \<Rightarrow> GstPadDirection \<Rightarrow> GstCaps \<Rightarrow> GstCaps" where
  "method_transform_caps m ctx direction caps =
     (case m of
        gl_memory_upload \<Rightarrow> gl_memory_upload_transform_caps ctx direction caps
      | egl_image_upload \<Rightarrow> egl_image_upload_transform_caps ctx direction caps
      | upload_meta_upload \<Rightarrow> upload_meta_upload_transform_caps ctx direction caps
      | raw_data_upload \<Rightarrow> raw_data_upload_transform_caps ctx direction caps)"

text \<open>
  gst_gl_upload_transform_caps merges the results of the methods in table order into
  an empty caps, passes the merge to gst_gl_overlay_compositor_add_caps and intersects
  with the filter when there is one. gst_gl_overlay_compositor_add_caps is defined in
  gstgloverlaycompositor.c, not in gstglupload.c: it is the parameter \<open>add_caps\<close>.
\<close>

definition gst_gl_upload_transform_caps ::
  "(GstCaps \<Rightarrow> GstCaps) \<Rightarrow> nat \<Rightarrow> GstPadDirection \<Rightarrow> GstCaps \<Rightarrow> GstCaps option \<Rightarrow> GstCaps" where
  "gst_gl_upload_transform_caps add_caps ctx direction caps filter_caps =
     (let tmp = foldl (\<lambda>tmp m. gst_caps_merge tmp (method_transform_caps m ctx direction caps))
                  (Caps []) upload_methods;
          tmp = add_caps tmp
      in case filter_caps of
           Some f \<Rightarrow> gst_caps_intersect_first f tmp
         | None \<Rightarrow> tmp)"


text \<open>A second instance of \<open>add_caps\<close>, which does what the name of the C function
  says: in front of the caps it puts a copy of every entry with the
  overlay-composition feature added, merged the way gst_caps_merge merges. The
  properties of gst_gl_upload_transform_caps below are stated for both instances.\<close>

fun add_feature_everywhere :: "GstCaps \<Rightarrow> string \<Rightarrow> GstCaps" where
  "add_feature_everywhere CapsAny f = CapsAny"
| "add_feature_everywhere (Caps es) f = Caps (map (\<lambda>e. (gst_caps_features_add (fst e) f, snd e)) es)"

definition with_overlay_composition :: "GstCaps \<Rightarrow> GstCaps" where
  "with_overlay_composition caps =
     gst_caps_merge
       (add_feature_everywhere caps GST_CAPS_FEATURE_META_GST_VIDEO_OVERLAY_COMPOSITION) caps"

section \<open>Vocabulary of the properties\<close>

text \<open>The strategies asked to accept, in the order of the calls.\<close>

fun accepted_methods :: "event list \<Rightarrow> UploadMethod list" where
  "accepted_methods [] = []"
| "accepted_methods (EvAccept m i b r # es) = m # accepted_methods es"
| "accepted_methods (e # es) = accepted_methods es"

text \<open>The strategies a call can still ask, in order: the current one, the raw-data method
  once more when the current one is the GL-memory method (whose perform can answer
  GST_GL_UPLOAD_UNSHARED_GL_CONTEXT), then the entries of upload_methods from method_i
  on.\<close>

definition candidates :: "GstGLUpload \<Rightarrow> UploadMethod list" where
  "candidates s =
     (case method_desc s of
        None \<Rightarrow> []
      | Some m \<Rightarrow> m # (if m = gl_memory_upload then [raw_data_upload] else [])) @
     drop (method_i s) upload_methods"

text \<open>The same for a whole call of gst_gl_upload_perform_with_buffer: with no current
  instance the call first makes the entry at method_i the current method.\<close>

definition call_candidates :: "GstGLUpload \<Rightarrow> UploadMethod list" where
  "call_candidates s =
     (case method_impl s of
        Some p \<Rightarrow> candidates s
      | None \<Rightarrow>
          (if method_i s < length upload_methods
           then (let m = upload_methods ! method_i s
                 in m # (if m = gl_memory_upload then [raw_data_upload] else []) @
                    drop (Suc (method_i s)) upload_methods)
           else []))"

definition frees :: "UploadMethod \<Rightarrow> nat option \<Rightarrow> event list" where
  "frees m impl = (case impl of None \<Rightarrow> [] | Some p \<Rightarrow> [EvFree m p])"

text \<open>The strategy an instance struct belongs to, and the live instances of a session
  by address.\<close>

definition impl_kind :: "impl \<Rightarrow> UploadMethod" where
  "impl_kind i =
     (case i of GLMemoryUpload \<Rightarrow> gl_memory_upload
      | EGLImageUpload \<Rightarrow> egl_image_upload
      | GLUploadMeta \<Rightarrow> upload_meta_upload
      | RawUpload fr \<Rightarrow> raw_data_upload)"

definition live :: "GstGLUpload \<Rightarrow> (nat \<times> UploadMethod) list" where
  "live s = map (\<lambda>e. (fst e, impl_kind (snd e))) (impls s)"

text \<open>
  What holds of the instances in every state a session can be in: the live instances
  have distinct addresses below the allocation mark; upload_impl points to one
  instance per entry of upload_methods, in order; the live instances are these and
  the current one (method_impl), when there is one; the current instance is not one of
  the upload_impl instances, belongs to the current method, exists only once
  method_i is above 0, and its method is the entry just before method_i or the
  raw-data method; method_i never passes the length of the table, and reaches it only
  with a current instance.
\<close>

definition session_inv :: "GstGLUpload \<Rightarrow> bool" where
  "session_inv s =
     (distinct (map fst (live s)) \<and>
      (\<forall>p \<in> fst ` set (live s). p < next_impl s) \<and>
      map (map_of (live s)) (upload_impl s) = map Some upload_methods \<and>
      fst ` set (live s) = set (upload_impl s) \<union> set_option (method_impl s) \<and>
      (\<forall>p. method_impl s = Some p \<longrightarrow>
            p \<notin> set (upload_impl s) \<and> 0 < method_i s \<and>
            (\<exists>m. method_desc s = Some m \<and> map_of (live s) p = Some m \<and>
                 (m = upload_methods ! (method_i s - 1) \<or> m = raw_data_upload))) \<and>
      method_i s \<le> length upload_methods \<and>
      (method_impl s = None \<longrightarrow> method_i s < length upload_methods))"

text \<open>The states of a session: created by gst_gl_upload_new, then any sequence of
  buffers coming into being, gst_gl_upload_set_caps and
  gst_gl_upload_perform_with_buffer calls that return.\<close>

inductive reachable :: "externals \<Rightarrow> GstGLUpload \<Rightarrow> bool" for E :: externals where
  created: "reachable E (gst_gl_upload_new ctx)"
| arrived: "reachable E s \<Longrightarrow> reachable E (buffer_arrives buf s)"
| caps_set: "reachable E s \<Longrightarrow> gst_gl_upload_set_caps E s new_in new_out = Inr (r, s') \<Longrightarrow>
             reachable E s'"
| performed: "reachable E s \<Longrightarrow> gst_gl_upload_perform_with_buffer E s b = Inr (ret, ob, s') \<Longrightarrow>
              reachable E s'"

text \<open>The calls that must follow a perform answering GST_GL_UPLOAD_UNSHARED_GL_CONTEXT:
  free of the instance that performed, new of the raw-data method, accept of that new
  instance for the same buffer. \<open>fallback_follows\<close> says so of every such perform in a
  list of calls.\<close>

fun starts_with_fallback :: "UploadMethod \<Rightarrow> nat option \<Rightarrow> nat \<Rightarrow> event list \<Rightarrow> bool" where
  "starts_with_fallback m i b (EvFree m1 p # EvNew m2 q # EvAccept m3 i3 b3 a # rest) =
     (m1 = m \<and> i = Some p \<and> m2 = raw_data_upload \<and> m3 = raw_data_upload \<and>
      i3 = Some q \<and> b3 = b)"
| "starts_with_fallback m i b es = False"

fun fallback_follows :: "event list \<Rightarrow> bool" where
  "fallback_follows [] = True"
| "fallback_follows (EvPerform m i b r # es) =
     ((if r = GST_GL_UPLOAD_UNSHARED_GL_CONTEXT then starts_with_fallback m i b es else True) \<and>
      fallback_follows es)"
| "fallback_follows (e # es) = fallback_follows es"








text \<open>The answers of the perform calls, in the order of the calls.\<close>

fun performed_results :: "event list \<Rightarrow> GstGLUploadReturn list" where
  "performed_results [] = []"
| "performed_results (EvPerform m i b r # es) = r # performed_results es"
| "performed_results (e # es) = performed_results es"

section \<open>Concrete caps, buffers and sessions on which the model is evaluated\<close>

definition rgba_caps :: "string \<Rightarrow> GstCaps" where
  "rgba_caps feature = Caps [(Features [feature], (''video/x-raw'', [(''format'', VFixed ''RGBA'')]))]"

definition unfixed_caps :: GstCaps where
  "unfixed_caps =
     Caps [(Features [GST_CAPS_FEATURE_MEMORY_GL_MEMORY],
            (''video/x-raw'', [(''format'', VList [''RGBA'', ''I420''])]))]"

definition info_of_planes :: "nat \<Rightarrow> GstVideoInfo" where
  "info_of_planes n =
     \<lparr>finfo_n_planes = Some n, multiview_mode = GST_VIDEO_MULTIVIEW_MODE_MONO, views = 1\<rparr>"

text \<open>Externals for the examples: every fixed caps describes a one-plane format, a
  buffer maps when it has memories and all of them are system memory, contexts share
  when they are equal, and the memory constructors give one GL memory per plane.\<close>

definition example_externals :: externals where
  "example_externals =
     \<lparr>gst_video_info_from_caps = (\<lambda>c. if gst_caps_is_fixed c then Some (info_of_planes 1) else None),
      gst_video_frame_map =
        (\<lambda>i b. if memories b \<noteq> [] \<and> list_all (\<lambda>m. m = GstSystemMemory) (memories b)
                then Some i else None),
      gst_gl_context_can_share = (\<lambda>c d. c = d),
      gst_gl_memory_setup_buffer = (\<lambda>c i. replicate (case finfo_n_planes i of None \<Rightarrow> 0 | Some n \<Rightarrow> n) (GstGLMemory c)),
      gst_gl_memory_setup_wrapped = (\<lambda>c i. replicate (case finfo_n_planes i of None \<Rightarrow> 0 | Some n \<Rightarrow> n) (GstGLMemory c))\<rparr>"

text \<open>The session after gst_gl_upload_new 0 and gst_gl_upload_set_caps with RGBA caps
  (the input caps with the given feature, the output caps with the GL memory feature),
  with the given buffers in the store.\<close>

definition example_session :: "string \<Rightarrow> GstBuffer list \<Rightarrow> GstGLUpload" where
  "example_session feature bs =
     \<lparr>gl_context = 0, in_info = info_of_planes 1, out_info = info_of_planes 1,
      in_caps = Some (rgba_caps feature),
      out_caps = Some (rgba_caps GST_CAPS_FEATURE_MEMORY_GL_MEMORY),
      upload_impl = [0, 1, 2, 3], method_desc = None, method_impl = None, method_i = 0,
      impls = [(0, GLMemoryUpload), (1, EGLImageUpload), (2, GLUploadMeta), (3, RawUpload None)],
      next_impl = 4, buffers = bs,
      calls = [EvNew gl_memory_upload 0, EvNew egl_image_upload 1,
               EvNew upload_meta_upload 2, EvNew raw_data_upload 3]\<rparr>"

definition foreign_gl_buffer :: GstBuffer where
  "foreign_gl_buffer = new_buffer [GstGLMemory 7]"

definition own_gl_buffer :: GstBuffer where
  "own_gl_buffer = new_buffer [GstGLMemory 0]"

definition empty_buffer :: GstBuffer where
  "empty_buffer = new_buffer []"

definition system_buffer :: GstBuffer where
  "system_buffer = (new_buffer [GstSystemMemory])\<lparr>flags := 5, pts := 100\<rparr>"

definition meta_buffer :: "bool \<Rightarrow> GstMemory list \<Rightarrow> GstBuffer" where
  "meta_buffer ok ms =
     (new_buffer ms)
       \<lparr>flags := 5, pts := 100,
        upload_meta := Some \<lparr>texture_orientation = GST_VIDEO_GL_TEXTURE_ORIENTATION_X_NORMAL_Y_NORMAL,
                             texture_type_0 = GST_VIDEO_GL_TEXTURE_TYPE_RGBA, upload_ok = ok\<rparr>\<rparr>"

text \<open>The session after every method has rejected the empty buffer.\<close>

definition exhausted_session :: GstGLUpload where
  "exhausted_session =
     (example_session GST_CAPS_FEATURE_MEMORY_SYSTEM_MEMORY [empty_buffer, system_buffer])
        \<lparr>method_desc := Some raw_data_upload, method_impl := Some 7, method_i := 4,
         impls := [(0, GLMemoryUpload), (1, EGLImageUpload), (2, GLUploadMeta),
                   (3, RawUpload None), (7, RawUpload None)],
         next_impl := 8,
         calls := calls (example_session GST_CAPS_FEATURE_MEMORY_SYSTEM_MEMORY [empty_buffer, system_buffer]) @
           [EvNew gl_memory_upload 4, EvAccept gl_memory_upload (Some 4) 0 False,
            EvFree gl_memory_upload 4, EvNew egl_image_upload 5,
            EvAccept egl_image_upload (Some 5) 0 False,
            EvFree egl_image_upload 5, EvNew upload_meta_upload 6,
            EvAccept upload_meta_upload (Some 6) 0 False,
            EvFree upload_meta_upload 6, EvNew raw_data_upload 7,
            EvAccept raw_data_upload (Some 7) 0 False]\<rparr>"

definition two_memory_buffer :: GstBuffer where
  "two_memory_buffer = new_buffer [GstSystemMemory, GstSystemMemory]"

definition i420_caps :: GstCaps where
  "i420_caps = Caps [(Features [GST_CAPS_FEATURE_MEMORY_GL_MEMORY],
                      (''video/x-raw'', [(''format'', VFixed ''I420'')]))]"

definition sized_filter :: GstCaps where
  "sized_filter =
     Caps [(Features [GST_CAPS_FEATURE_MEMORY_GL_MEMORY],
            (''video/x-raw'', [(''width'', VFixed ''320'')])),
           (Features [GST_CAPS_FEATURE_MEMORY_GL_MEMORY,
                      GST_CAPS_FEATURE_META_GST_VIDEO_OVERLAY_COMPOSITION],
            (''video/x-raw'', [(''height'', VFixed ''240'')]))]"

text \<open>The sessions the example calls end in.\<close>

definition foreign_gl_outcome :: GstGLUpload where
  "foreign_gl_outcome =
     (example_session GST_CAPS_FEATURE_MEMORY_GL_MEMORY [foreign_gl_buffer])
        \<lparr>method_desc := Some raw_data_upload, method_impl := Some 8, method_i := 4,
         impls := [(0, GLMemoryUpload), (1, EGLImageUpload), (2, GLUploadMeta),
                   (3, RawUpload None), (8, RawUpload None)],
         next_impl := 9,
         calls := calls (example_session GST_CAPS_FEATURE_MEMORY_GL_MEMORY [foreign_gl_buffer]) @
           [EvNew gl_memory_upload 4, EvAccept gl_memory_upload (Some 4) 0 True,
            EvPerform gl_memory_upload (Some 4) 0 GST_GL_UPLOAD_UNSHARED_GL_CONTEXT,
            EvFree gl_memory_upload 4, EvNew raw_data_upload 5,
            EvAccept raw_data_upload (Some 5) 0 False, EvFree raw_data_upload 5,
            EvNew egl_image_upload 6, EvAccept egl_image_upload (Some 6) 0 False,
            EvFree egl_image_upload 6, EvNew upload_meta_upload 7,
            EvAccept upload_meta_upload (Some 7) 0 False,
            EvFree upload_meta_upload 7, EvNew raw_data_upload 8,
            EvAccept raw_data_upload (Some 8) 0 False]\<rparr>"

definition passthrough_outcome :: GstGLUpload where
  "passthrough_outcome =
     (example_session GST_CAPS_FEATURE_MEMORY_GL_MEMORY [own_gl_buffer])
        \<lparr>method_desc := Some gl_memory_upload, method_impl := Some 4, method_i := 1,
         impls := [(0, GLMemoryUpload), (1, EGLImageUpload), (2, GLUploadMeta),
                   (3, RawUpload None), (4, GLMemoryUpload)],
         next_impl := 5,
         calls := calls (example_session GST_CAPS_FEATURE_MEMORY_GL_MEMORY [own_gl_buffer]) @
           [EvNew gl_memory_upload 4, EvAccept gl_memory_upload (Some 4) 0 True,
            EvPerform gl_memory_upload (Some 4) 0 GST_GL_UPLOAD_DONE]\<rparr>"

definition after_exhaustion_outcome :: GstGLUpload where
  "after_exhaustion_outcome =
     exhausted_session
        \<lparr>buffers := [empty_buffer, system_buffer,
                      (new_buffer [GstGLMemory 0])\<lparr>flags := 5, pts := 100\<rparr>],
         calls := calls exhausted_session @
           [EvAccept raw_data_upload (Some 7) 1 True,
            EvPerform raw_data_upload (Some 7) 1 GST_GL_UPLOAD_DONE]\<rparr>"

definition meta_failed_outcome :: GstGLUpload where
  "meta_failed_outcome =
     (example_session GST_CAPS_FEATURE_META_GST_VIDEO_GL_TEXTURE_UPLOAD_META
          [meta_buffer False [], new_buffer [GstGLMemory 0]])
        \<lparr>method_desc := Some raw_data_upload, method_impl := Some 7, method_i := 4,
         impls := [(0, GLMemoryUpload), (1, EGLImageUpload), (2, GLUploadMeta),
                   (3, RawUpload None), (7, RawUpload None)],
         next_impl := 8,
         calls := calls (example_session GST_CAPS_FEATURE_META_GST_VIDEO_GL_TEXTURE_UPLOAD_META []) @
           [EvNew gl_memory_upload 4, EvAccept gl_memory_upload (Some 4) 0 False,
            EvFree gl_memory_upload 4, EvNew egl_image_upload 5,
            EvAccept egl_image_upload (Some 5) 0 False,
            EvFree egl_image_upload 5, EvNew upload_meta_upload 6,
            EvAccept upload_meta_upload (Some 6) 0 True,
            EvPerform upload_meta_upload (Some 6) 0 GST_GL_UPLOAD_ERROR,
            EvFree upload_meta_upload 6, EvNew raw_data_upload 7,
            EvAccept raw_data_upload (Some 7) 0 False]\<rparr>"

definition meta_done_outcome :: GstGLUpload where
  "meta_done_outcome =
     (example_session GST_CAPS_FEATURE_META_GST_VIDEO_GL_TEXTURE_UPLOAD_META
          [meta_buffer True [GstSystemMemory, GstSystemMemory],
           (new_buffer [GstGLMemory 0])\<lparr>flags := 5, pts := 100\<rparr>])
        \<lparr>method_desc := Some upload_meta_upload, method_impl := Some 6, method_i := 3,
         impls := [(0, GLMemoryUpload), (1, EGLImageUpload), (2, GLUploadMeta),
                   (3, RawUpload None), (6, GLUploadMeta)],
         next_impl := 7,
         calls := calls (example_session GST_CAPS_FEATURE_META_GST_VIDEO_GL_TEXTURE_UPLOAD_META []) @
           [EvNew gl_memory_upload 4, EvAccept gl_memory_upload (Some 4) 0 False,
            EvFree gl_memory_upload 4, EvNew egl_image_upload 5,
            EvAccept egl_image_upload (Some 5) 0 False,
            EvFree egl_image_upload 5, EvNew upload_meta_upload 6,
            EvAccept upload_meta_upload (Some 6) 0 True,
            EvPerform upload_meta_upload (Some 6) 0 GST_GL_UPLOAD_DONE]\<rparr>"

definition raw_done_outcome :: GstGLUpload where
  "raw_done_outcome =
     (example_session GST_CAPS_FEATURE_MEMORY_SYSTEM_MEMORY
          [two_memory_buffer, new_buffer [GstGLMemory 0]])
        \<lparr>method_desc := Some raw_data_upload, method_impl := Some 7, method_i := 4,
         impls := [(0, GLMemoryUpload), (1, EGLImageUpload), (2, GLUploadMeta),
                   (3, RawUpload None), (7, RawUpload None)],
         next_impl := 8,
         calls := calls (example_session GST_CAPS_FEATURE_MEMORY_SYSTEM_MEMORY []) @
           [EvNew gl_memory_upload 4, EvAccept gl_memory_upload (Some 4) 0 False,
            EvFree gl_memory_upload 4, EvNew egl_image_upload 5,
            EvAccept egl_image_upload (Some 5) 0 False,
            EvFree egl_image_upload 5, EvNew upload_meta_upload 6,
            EvAccept upload_meta_upload (Some 6) 0 False,
            EvFree upload_meta_upload 6, EvNew raw_data_upload 7,
            EvAccept raw_data_upload (Some 7) 0 True,
            EvPerform raw_data_upload (Some 7) 0 GST_GL_UPLOAD_DONE]\<rparr>"

text \<open>Externals with which every buffer that has memories maps, and the sessions of two
  calls with them: a GL buffer of a context that cannot share is uploaded through the
  raw-data method, which stays current; the next call is for an empty buffer.\<close>

definition mapping_externals :: externals where
  "mapping_externals =
     example_externals\<lparr>gst_video_frame_map := (\<lambda>i b. if memories b \<noteq> [] then Some i else None)\<rparr>"

definition fallback_done_outcome :: GstGLUpload where
  "fallback_done_outcome =
     (example_session GST_CAPS_FEATURE_MEMORY_GL_MEMORY [foreign_gl_buffer, empty_buffer])
        \<lparr>method_desc := Some raw_data_upload, method_impl := Some 5, method_i := 1,
         impls := [(0, GLMemoryUpload), (1, EGLImageUpload), (2, GLUploadMeta),
                   (3, RawUpload None), (5, RawUpload None)],
         next_impl := 6,
         buffers := [foreign_gl_buffer, empty_buffer, new_buffer [GstGLMemory 0]],
         calls := calls (example_session GST_CAPS_FEATURE_MEMORY_GL_MEMORY
                           [foreign_gl_buffer, empty_buffer]) @
           [EvNew gl_memory_upload 4, EvAccept gl_memory_upload (Some 4) 0 True,
            EvPerform gl_memory_upload (Some 4) 0 GST_GL_UPLOAD_UNSHARED_GL_CONTEXT,
            EvFree gl_memory_upload 4, EvNew raw_data_upload 5,
            EvAccept raw_data_upload (Some 5) 0 True,
            EvPerform raw_data_upload (Some 5) 0 GST_GL_UPLOAD_DONE]\<rparr>"

definition raw_twice_outcome :: GstGLUpload where
  "raw_twice_outcome =
     fallback_done_outcome
        \<lparr>method_impl := Some 8, method_i := 4,
         impls := [(0, GLMemoryUpload), (1, EGLImageUpload), (2, GLUploadMeta),
                   (3, RawUpload None), (8, RawUpload None)],
         next_impl := 9,
         calls := calls fallback_done_outcome @
           [EvAccept raw_data_upload (Some 5) 1 False,
            EvFree raw_data_upload 5, EvNew egl_image_upload 6,
            EvAccept egl_image_upload (Some 6) 1 False,
            EvFree egl_image_upload 6, EvNew upload_meta_upload 7,
            EvAccept upload_meta_upload (Some 7) 1 False,
            EvFree upload_meta_upload 7, EvNew raw_data_upload 8,
            EvAccept raw_data_upload (Some 8) 1 False]\<rparr>"

text \<open>The session after the passthrough upload and a change of the input caps.\<close>

definition renegotiated_session :: GstGLUpload where
  "renegotiated_session =
     passthrough_outcome
       \<lparr>in_caps := Some (rgba_caps GST_CAPS_FEATURE_MEMORY_SYSTEM_MEMORY),
        method_impl := None, method_i := 0,
        impls := [(0, GLMemoryUpload), (1, EGLImageUpload), (2, GLUploadMeta), (3, RawUpload None)],
        calls := calls passthrough_outcome @ [EvFree gl_memory_upload 4]\<rparr>"

section \<open>Properties\<close>

lemma upload_methods_eq:
  "upload_methods = [gl_memory_upload, egl_image_upload, upload_meta_upload, raw_data_upload]"
  by (simp add: upload_methods_def GST_GL_HAVE_PLATFORM_EGL_def)

lemma later_method_not_gl:
  "0 < i \<Longrightarrow> i < length upload_methods \<Longrightarrow> upload_methods ! i \<noteq> gl_memory_upload"
  by (cases i) (auto simp: upload_methods_eq nth_Cons split: nat.splits)

lemma NEXT_METHOD_Leave:
  assumes "NEXT_METHOD s = Inr (Leave r ob s')"
  shows "r = RETURN_FALSE \<and> ob = None \<and> s' = s \<and> length upload_methods \<le> method_i s"
  using assms
  by (auto simp: NEXT_METHOD_def upload_find_method_def Let_def
        split: sum.splits prod.splits if_splits)

lemma NEXT_METHOD_Restart_effect:
  assumes "NEXT_METHOD s = Inr (Restart s')"
  shows "method_i s < length upload_methods \<and> method_i s' = Suc (method_i s) \<and>
         method_desc s' = Some (upload_methods ! method_i s) \<and>
         method_impl s' = Some (next_impl s) \<and> next_impl s' = Suc (next_impl s) \<and>
         buffers s' = buffers s \<and> upload_impl s' = upload_impl s \<and>
         in_caps s' = in_caps s \<and> out_caps s' = out_caps s \<and>
         in_info s' = in_info s \<and> out_info s' = out_info s \<and> gl_context s' = gl_context s \<and>
         calls s' = calls s @
            (case method_impl s of None \<Rightarrow> []
             | Some p \<Rightarrow> (case method_desc s of None \<Rightarrow> [] | Some m \<Rightarrow> [EvFree m p])) @
            [EvNew (upload_methods ! method_i s) (next_impl s)] \<and>
         impls s' = filter (\<lambda>e. Some (fst e) \<noteq> method_impl s) (impls s) @
            [(next_impl s, initial_impl (upload_methods ! method_i s))]"
  using assms
  by (auto simp: NEXT_METHOD_def upload_find_method_def Let_def free_current_def
        method_free_def method_new_def
        split: sum.splits prod.splits if_splits option.splits)

lemma accepted_methods_append [simp]:
  "accepted_methods (xs @ ys) = accepted_methods xs @ accepted_methods ys"
  by (induction xs rule: accepted_methods.induct) simp_all

lemma upload_restart_induct [consumes 1, case_names leave again]:
  assumes run: "upload_restart E s b = Inr (ret, ob, s')"
    and leave: "\<And>s. restart_pass E s b = Inr (Leave ret ob s') \<Longrightarrow> P s"
    and again: "\<And>s s1. restart_pass E s b = Inr (Restart s1) \<Longrightarrow>
                  upload_restart E s1 b = Inr (ret, ob, s') \<Longrightarrow> P s1 \<Longrightarrow> P s"
  shows "P s"
  using assms
proof (induction E s b rule: upload_restart.induct)
  case (1 E s b)
  note run = "1.prems"(1) and leave = "1.prems"(2) and again = "1.prems"(3)
  show ?case
  proof (cases "restart_pass E s b")
    case (Inl f)
    with run show ?thesis by simp
  next
    case (Inr r)
    show ?thesis
    proof (cases r)
      case (Restart s1)
      with Inr run have r1: "upload_restart E s1 b = Inr (ret, ob, s')" by simp
      have "P s1"
        by (rule "1.IH"[OF Inr Restart r1]) (erule leave, erule again, assumption+)
      with again[of s s1] Inr Restart r1 show ?thesis by simp
    next
      case (Leave r' ob' s'')
      with Inr run leave[of s] show ?thesis by simp
    qed
  qed
qed


lemma method_perform_buffers:
  assumes "method_perform E m s impl b = Inr (r, ob, s')"
  shows "(buffers s' = buffers s \<and> (r = GST_GL_UPLOAD_DONE \<longrightarrow> ob = Some b)) \<or>
         (\<exists>x. buffers s' = buffers s @ [x] \<and> ob = Some (length (buffers s)))"
  using assms
  by (cases m)
     (auto simp: method_perform_def gl_memory_upload_perform_def egl_image_upload_perform_def
        upload_meta_upload_perform_def raw_data_upload_perform_def
        store_impl_def Let_def
        split: if_splits option.splits sum.splits impl.splits prod.splits)

lemma unshared_fallback_keeps:
  "buffers (unshared_fallback s) = buffers s \<and> in_caps (unshared_fallback s) = in_caps s \<and>
   out_caps (unshared_fallback s) = out_caps s \<and> upload_impl (unshared_fallback s) = upload_impl s \<and>
   in_info (unshared_fallback s) = in_info s \<and> out_info (unshared_fallback s) = out_info s \<and>
   gl_context (unshared_fallback s) = gl_context s \<and>
   next_impl (unshared_fallback s) = Suc (next_impl s)"
  by (auto simp: unshared_fallback_def method_new_def method_free_def Let_def split: option.splits)

text \<open>What one pass does to the index and the buffer store.\<close>

lemma restart_pass_Restart_fields:
  assumes "restart_pass E s b = Inr (Restart s1)"
  shows "method_i s \<le> method_i s1 \<and> (\<exists>extra. buffers s1 = buffers s @ extra) \<and>
         in_caps s1 = in_caps s \<and> out_caps s1 = out_caps s \<and> gl_context s1 = gl_context s \<and>
         upload_impl s1 = upload_impl s"
  using assms
proof (cases rule: restart_pass_cases)
  case (rejected m sa)
  from NEXT_METHOD_Restart_effect[OF rejected(3)] method_accept_keeps[OF rejected(2)]
  show ?thesis by simp
next
  case (unshared m sa outbuf sp)
  from unshared(4) method_perform_keeps[OF unshared(3)] method_accept_keeps[OF unshared(2)]
    method_perform_buffers[OF unshared(3)]
  show ?thesis by (auto simp: unshared_fallback_fields unshared_fallback_keeps)
next
  case (finished m sa outbuf sp)
  then show ?thesis by simp
next
  case (failed m sa ret outbuf sp)
  from NEXT_METHOD_Restart_effect[OF failed(6)] method_perform_keeps[OF failed(3)]
    method_accept_keeps[OF failed(2)] method_perform_buffers[OF failed(3)]
  show ?thesis by (auto simp: method_free_def split: option.splits)
qed

lemma restart_pass_Leave_fields:
  assumes "restart_pass E s b = Inr (Leave ret ob s')"
  shows "(ret = GST_GL_UPLOAD_DONE \<or> ret = RETURN_FALSE) \<and>
         (ret = RETURN_FALSE \<longrightarrow> ob = None \<and> length upload_methods \<le> method_i s') \<and>
         method_i s \<le> method_i s' \<and> (\<exists>extra. buffers s' = buffers s @ extra) \<and>
         (ret = GST_GL_UPLOAD_DONE \<longrightarrow>
            (ob = Some b \<and> buffers s' = buffers s) \<or>
            (ob = Some (length (buffers s)) \<and> length (buffers s') = Suc (length (buffers s)))) \<and>
         in_caps s' = in_caps s \<and> out_caps s' = out_caps s \<and> gl_context s' = gl_context s \<and>
         upload_impl s' = upload_impl s"
  using assms
proof (cases rule: restart_pass_cases)
  case (rejected m sa)
  from NEXT_METHOD_Leave[OF rejected(3)] method_accept_keeps[OF rejected(2)]
  show ?thesis by auto
next
  case (unshared m sa outbuf sp)
  then show ?thesis by simp
next
  case (finished m sa outbuf sp)
  from finished(4) method_perform_keeps[OF finished(3)] method_accept_keeps[OF finished(2)]
    method_perform_buffers[OF finished(3)]
  show ?thesis by auto
next
  case (failed m sa ret' outbuf sp)
  from NEXT_METHOD_Leave[OF failed(6)] method_perform_keeps[OF failed(3)]
    method_accept_keeps[OF failed(2)] method_perform_buffers[OF failed(3)]
  show ?thesis by (auto simp: method_free_def split: option.splits)
qed

lemma upload_restart_result:
  assumes "upload_restart E s b = Inr (ret, ob, s')"
  shows "(ret = GST_GL_UPLOAD_DONE \<or> ret = RETURN_FALSE) \<and>
         (ret = RETURN_FALSE \<longrightarrow> ob = None \<and> length upload_methods \<le> method_i s') \<and>
         method_i s \<le> method_i s' \<and> (\<exists>extra. buffers s' = buffers s @ extra) \<and>
         (ret = GST_GL_UPLOAD_DONE \<longrightarrow> b < length (buffers s) \<longrightarrow>
            (\<exists>out. ob = Some out \<and> out < length (buffers s'))) \<and>
         in_caps s' = in_caps s \<and> out_caps s' = out_caps s \<and> gl_context s' = gl_context s \<and>
         upload_impl s' = upload_impl s"
  using assms
proof (induction rule: upload_restart_induct)
  case (leave s)
  from restart_pass_Leave_fields[OF leave] show ?case by auto
next
  case (again s s1)
  from restart_pass_Restart_fields[OF again(1)] again(3) show ?case by auto
qed


lemma gl_memory_transfer_all_unshared:
  "gl_memory_transfer_all E s impl ms = Inr False \<Longrightarrow> \<exists>p. impl = Some p"
  by (induction ms)
     (auto simp: deref_impl_def split: GstMemory.splits sum.splits option.splits if_splits)

lemma unshared_only_gl_memory:
  assumes "method_perform E m s impl b = Inr (GST_GL_UPLOAD_UNSHARED_GL_CONTEXT, ob, s')"
  shows "m = gl_memory_upload \<and> (\<exists>p. impl = Some p) \<and> ob = None \<and> s' = s"
  using assms
  by (cases m)
     (auto simp: method_perform_def gl_memory_upload_perform_def egl_image_upload_perform_def
        upload_meta_upload_perform_def raw_data_upload_perform_def Let_def
        dest: gl_memory_transfer_all_unshared
        split: if_splits option.splits sum.splits impl.splits prod.splits)

lemma restart_pass_Restart_cases:
  assumes "restart_pass E s b = Inr (Restart s1)"
  obtains
    (rejected) m where "method_desc s = Some m" "method_i s < length upload_methods"
      "calls s1 = calls s @ EvAccept m (method_impl s) b False # frees m (method_impl s) @
                    [EvNew (upload_methods ! method_i s) (next_impl s)]"
      "method_desc s1 = Some (upload_methods ! method_i s)" "method_i s1 = Suc (method_i s)"
      "method_impl s1 = Some (next_impl s)"
  | (unshared) p where "method_desc s = Some gl_memory_upload" "method_impl s = Some p"
      "calls s1 = calls s @ [EvAccept gl_memory_upload (Some p) b True,
                    EvPerform gl_memory_upload (Some p) b GST_GL_UPLOAD_UNSHARED_GL_CONTEXT,
                    EvFree gl_memory_upload p, EvNew raw_data_upload (next_impl s)]"
      "method_desc s1 = Some raw_data_upload" "method_i s1 = method_i s"
      "method_impl s1 = Some (next_impl s)"
  | (failed) m ret where "method_desc s = Some m" "method_i s < length upload_methods"
      "ret \<noteq> GST_GL_UPLOAD_UNSHARED_GL_CONTEXT" "ret \<noteq> GST_GL_UPLOAD_DONE"
      "calls s1 = calls s @ [EvAccept m (method_impl s) b True, EvPerform m (method_impl s) b ret] @
                    frees m (method_impl s) @ [EvNew (upload_methods ! method_i s) (next_impl s)]"
      "method_desc s1 = Some (upload_methods ! method_i s)" "method_i s1 = Suc (method_i s)"
      "method_impl s1 = Some (next_impl s)"
  using assms
proof (cases rule: restart_pass_cases)
  case (rejected m sa)
  from NEXT_METHOD_Restart_effect[OF rejected(3)] method_accept_keeps[OF rejected(2)] rejected(1)
  show ?thesis
    by (intro that(1)[of m]) (auto simp: frees_def split: option.splits)
next
  case (unshared m sa outbuf sp)
  from unshared_only_gl_memory[OF unshared(3)] obtain p where
    m: "m = gl_memory_upload" and p: "method_impl s = Some p" and sp: "sp = record_call (EvAccept m (method_impl s) b True) sa"
    by auto
  from unshared(4) m p sp method_accept_keeps[OF unshared(2)] unshared(1)
  show ?thesis
    by (intro that(2)[of p])
       (auto simp: unshared_fallback_def method_new_def method_free_def Let_def)
next
  case (finished m sa outbuf sp)
  then show ?thesis by simp
next
  case (failed m sa ret outbuf sp)
  from NEXT_METHOD_Restart_effect[OF failed(6)] method_perform_keeps[OF failed(3)]
    method_accept_keeps[OF failed(2)] failed(1,4,5)
  show ?thesis
    by (intro that(3)[of m ret]) (auto simp: frees_def method_free_def split: option.splits)
qed

lemma restart_pass_Leave_cases:
  assumes "restart_pass E s b = Inr (Leave ret ob s')"
  obtains
    (rejected) m where "method_desc s = Some m" "length upload_methods \<le> method_i s"
      "ret = RETURN_FALSE" "ob = None"
      "calls s' = calls s @ [EvAccept m (method_impl s) b False]"
      "method_desc s' = Some m" "method_i s' = method_i s" "method_impl s' = method_impl s"
  | (finished) m where "method_desc s = Some m" "ret = GST_GL_UPLOAD_DONE"
      "calls s' = calls s @ [EvAccept m (method_impl s) b True,
                    EvPerform m (method_impl s) b GST_GL_UPLOAD_DONE]"
      "method_desc s' = Some m" "method_i s' = method_i s" "method_impl s' = method_impl s"
  | (failed) m r where "method_desc s = Some m" "length upload_methods \<le> method_i s"
      "ret = RETURN_FALSE" "ob = None"
      "r \<noteq> GST_GL_UPLOAD_UNSHARED_GL_CONTEXT" "r \<noteq> GST_GL_UPLOAD_DONE"
      "calls s' = calls s @ [EvAccept m (method_impl s) b True, EvPerform m (method_impl s) b r] @
                    frees m (method_impl s)"
      "method_desc s' = Some m" "method_i s' = method_i s" "method_impl s' = None"
  using assms
proof (cases rule: restart_pass_cases)
  case (rejected m sa)
  from NEXT_METHOD_Leave[OF rejected(3)] method_accept_keeps[OF rejected(2)] rejected(1)
  show ?thesis
    by (intro that(1)[of m]) auto
next
  case (unshared m sa outbuf sp)
  then show ?thesis by simp
next
  case (finished m sa outbuf sp)
  from finished(4) method_perform_keeps[OF finished(3)] method_accept_keeps[OF finished(2)]
    finished(1)
  show ?thesis
    by (intro that(2)[of m]) auto
next
  case (failed m sa r outbuf sp)
  from NEXT_METHOD_Leave[OF failed(6)] method_perform_keeps[OF failed(3)]
    method_accept_keeps[OF failed(2)] failed(1,4,5)
  show ?thesis
    by (intro that(3)[of m r]) (auto simp: frees_def method_free_def split: option.splits)
qed

lemma accepted_methods_frees [simp]: "accepted_methods (frees m i) = []"
  by (simp add: frees_def split: option.splits)

lemma drop_upload_methods:
  "i < length upload_methods \<Longrightarrow>
   drop i upload_methods = upload_methods ! i # drop (Suc i) upload_methods"
  by (simp add: Cons_nth_drop_Suc)

text \<open>The strategies asked to accept during the loop, in order, are a subsequence of the
  candidates of the state the loop starts in.\<close>

lemma upload_restart_accepts:
  assumes "upload_restart E s b = Inr (ret, ob, s')" and "0 < method_i s"
  shows "\<exists>new. calls s' = calls s @ new \<and> subseq (accepted_methods new) (candidates s)"
  using assms
proof (induction rule: upload_restart_induct)
  case (leave s)
  from leave(1) show ?case
  proof (cases rule: restart_pass_Leave_cases)
    case (rejected m)
    then show ?thesis by (simp add: candidates_def)
  next
    case (finished m)
    then show ?thesis by (simp add: candidates_def)
  next
    case (failed m r)
    then show ?thesis by (simp add: candidates_def)
  qed
next
  case (again s s1)
  from again(1) show ?case
  proof (cases rule: restart_pass_Restart_cases)
    case (rejected m)
    with again(3,4) obtain new where
      n: "calls s' = calls s1 @ new" "subseq (accepted_methods new) (candidates s1)"
      by auto
    from rejected again(4) have c1: "candidates s1 = drop (method_i s) upload_methods"
      by (simp add: candidates_def later_method_not_gl drop_upload_methods)
    have "subseq (m # accepted_methods new) (candidates s)"
      using n(2) c1 rejected(1)
      by (auto simp: candidates_def intro: subseq_Cons2 list_emb_append2[of _ _ _ "[_]", simplified])
    with n(1) rejected(3) show ?thesis by simp
  next
    case (unshared p)
    with again(3,4) obtain new where
      n: "calls s' = calls s1 @ new" "subseq (accepted_methods new) (candidates s1)"
      by auto
    from unshared have "candidates s = gl_memory_upload # candidates s1"
      by (simp add: candidates_def)
    with n unshared(3) show ?thesis by simp
  next
    case (failed m ret)
    with again(3,4) obtain new where
      n: "calls s' = calls s1 @ new" "subseq (accepted_methods new) (candidates s1)"
      by auto
    from failed again(4) have c1: "candidates s1 = drop (method_i s) upload_methods"
      by (simp add: candidates_def later_method_not_gl drop_upload_methods)
    have "subseq (m # accepted_methods new) (candidates s)"
      using n(2) c1 failed(1)
      by (auto simp: candidates_def intro: subseq_Cons2 list_emb_append2[of _ _ _ "[_]", simplified])
    with n(1) failed(5) show ?thesis by simp
  qed
qed


lemma live_fields [simp]:
  "live (record_call e s) = live s"
  "live (s\<lparr>method_impl := x\<rparr>) = live s"
  "live (s\<lparr>method_i := i\<rparr>) = live s"
  "live (s\<lparr>method_desc := d\<rparr>) = live s"
  "live (s\<lparr>buffers := bs\<rparr>) = live s"
  "live (s\<lparr>in_caps := c\<rparr>) = live s"
  "live (s\<lparr>out_caps := c\<rparr>) = live s"
  "live (s\<lparr>in_info := vi\<rparr>) = live s"
  "live (s\<lparr>out_info := vi\<rparr>) = live s"
  "live (s\<lparr>calls := cs\<rparr>) = live s"
  by (simp_all add: live_def record_call_def)

lemma store_impl_live:
  assumes "(p, v0) \<in> set (impls s)" "impl_kind v0 = impl_kind v"
    "distinct (map fst (impls s))"
  shows "live (store_impl (Some p) v s) = live s"
proof -
  have "\<forall>e\<in>set (impls s). fst e = p \<longrightarrow> snd e = v0"
    using assms(1,3) by (metis eq_key_imp_eq_value prod.collapse)
  with assms(2) show ?thesis
    by (auto simp: live_def store_impl_def)
qed

lemma distinct_live: "distinct (map fst (live s)) = distinct (map fst (impls s))"
  by (simp add: live_def comp_def)

lemma method_accept_live:
  assumes "method_accept E m s impl buffer ic oc = Inr (r, s')" "distinct (map fst (impls s))"
  shows "live s' = live s"
  using assms
  by (cases m)
     (auto simp: method_accept_def gl_memory_upload_accept_def egl_image_upload_accept_def
        upload_meta_upload_accept_def raw_data_upload_accept_def raw_upload_frame_new_def
        deref_impl_def Let_def
        store_impl_live[where ?v0.0 = "RawUpload x" for x, simplified impl_kind_def, simplified]
        split: if_splits option.splits sum.splits impl.splits prod.splits)

lemma method_perform_live:
  assumes "method_perform E m s impl b = Inr (r, ob, s')" "distinct (map fst (impls s))"
  shows "live s' = live s"
  using assms
  by (cases m)
     (auto simp: method_perform_def gl_memory_upload_perform_def egl_image_upload_perform_def
        upload_meta_upload_perform_def raw_data_upload_perform_def
        deref_impl_def Let_def
        store_impl_live[where ?v0.0 = "RawUpload x" for x, simplified impl_kind_def, simplified]
        split: if_splits option.splits sum.splits impl.splits prod.splits)

lemma raw_perform_done:
  assumes "method_perform E raw_data_upload s impl b = Inr (r, ob, s')"
  shows "r = GST_GL_UPLOAD_DONE"
  using assms
  by (auto simp: method_perform_def raw_data_upload_perform_def Let_def
        split: if_splits option.splits sum.splits impl.splits)


lemma map_of_filter_key:
  "map_of (filter (\<lambda>e. Some (fst e) \<noteq> q) xs) =
     (case q of None \<Rightarrow> map_of xs | Some p \<Rightarrow> (map_of xs)(p := None))"
  by (induction xs) (auto split: option.splits)

lemma keys_filter_key:
  "fst ` set (filter (\<lambda>e. Some (fst e) \<noteq> q) xs) = fst ` set xs - set_option q"
  by (cases q) auto

lemma upload_impl_lookup_keep:
  assumes "map L us = map Some ms" "\<forall>p\<in>set us. L' p = L p"
  shows "map L' us = map Some ms"
  using assms by (metis map_eq_conv)

lemma session_invD:
  assumes "session_inv s"
  shows "distinct (map fst (live s))"
    and "\<forall>p \<in> fst ` set (live s). p < next_impl s"
    and "map (map_of (live s)) (upload_impl s) = map Some upload_methods"
    and "fst ` set (live s) = set (upload_impl s) \<union> set_option (method_impl s)"
    and "\<forall>p. method_impl s = Some p \<longrightarrow> p \<notin> set (upload_impl s)"
    and "\<forall>p. method_impl s = Some p \<longrightarrow> 0 < method_i s \<and>
            (\<exists>m. method_desc s = Some m \<and> map_of (live s) p = Some m \<and>
                 (m = upload_methods ! (method_i s - 1) \<or> m = raw_data_upload))"
    and "method_i s \<le> length upload_methods"
    and "method_impl s = None \<longrightarrow> method_i s < length upload_methods"
  using assms unfolding session_inv_def by blast+

lemma inv_replace:
  assumes inv: "session_inv s"
    and l: "live s1 = filter (\<lambda>e. Some (fst e) \<noteq> method_impl s) (live s) @ [(next_impl s, m)]"
    and f: "next_impl s1 = Suc (next_impl s)" "method_impl s1 = Some (next_impl s)"
       "method_desc s1 = Some m" "upload_impl s1 = upload_impl s"
       "0 < method_i s1" "method_i s1 \<le> length upload_methods"
       "m = upload_methods ! (method_i s1 - 1) \<or> m = raw_data_upload"
  shows "session_inv s1"
proof -
  let ?q = "method_impl s" and ?n = "next_impl s"
  from inv have d: "distinct (map fst (live s))"
    and lt: "\<forall>p \<in> fst ` set (live s). p < ?n"
    and ui: "map (map_of (live s)) (upload_impl s) = map Some upload_methods"
    and keys: "fst ` set (live s) = set (upload_impl s) \<union> set_option ?q"
    and cur: "\<forall>p. ?q = Some p \<longrightarrow> p \<notin> set (upload_impl s)"
    by (rule session_invD)+
  have fresh: "?n \<notin> fst ` set (live s)" using lt by auto
  have k1: "fst ` set (live s1) = insert ?n (fst ` set (live s) - set_option ?q)"
    using keys_filter_key[of ?q "live s"] by (simp add: l)
  have u_in: "set (upload_impl s) \<subseteq> fst ` set (live s)" using keys by auto
  have d1: "distinct (map fst (live s1))"
    using d fresh by (auto simp: l distinct_map_filter)
  have lt1: "\<forall>p \<in> fst ` set (live s1). p < next_impl s1"
    using lt by (auto simp: k1 f(1) less_Suc_eq)
  have look: "\<forall>p\<in>set (upload_impl s). map_of (live s1) p = map_of (live s) p"
  proof
    fix p assume p: "p \<in> set (upload_impl s)"
    then have "p \<noteq> ?n" using u_in fresh by auto
    moreover have "?q \<noteq> Some p" using cur p by auto
    ultimately show "map_of (live s1) p = map_of (live s) p"
      by (auto simp: l map_of_filter_key map_add_def split: option.splits)
  qed
  have ui1: "map (map_of (live s1)) (upload_impl s1) = map Some upload_methods"
    using upload_impl_lookup_keep[OF ui look] by (simp add: f(4))
  have keys1: "fst ` set (live s1) = set (upload_impl s1) \<union> set_option (method_impl s1)"
    using keys cur by (auto simp: k1 f(2,4))
  have "map_of (live s) ?n = None"
    using fresh by (simp add: map_of_eq_None_iff)
  then have here: "map_of (live s1) ?n = Some m"
    by (simp add: l map_of_filter_key map_add_def split: option.splits)
  have notu: "?n \<notin> set (upload_impl s1)" using u_in fresh by (auto simp: f(4))
  show ?thesis
    unfolding session_inv_def
    using d1 lt1 ui1 keys1 here notu f by (intro conjI allI impI; simp)
qed

lemma inv_same:
  assumes inv: "session_inv s"
    and f: "live s1 = live s" "next_impl s1 = next_impl s" "method_impl s1 = method_impl s"
       "method_desc s1 = method_desc s" "upload_impl s1 = upload_impl s"
       "method_i s1 = method_i s"
  shows "session_inv s1"
  using inv unfolding session_inv_def f by assumption

lemma inv_drop:
  assumes inv: "session_inv s"
    and l: "live s1 = filter (\<lambda>e. Some (fst e) \<noteq> method_impl s) (live s)"
    and f: "next_impl s1 = next_impl s" "method_impl s1 = None"
       "upload_impl s1 = upload_impl s" "method_i s1 < length upload_methods"
  shows "session_inv s1"
proof -
  let ?q = "method_impl s"
  from inv have d: "distinct (map fst (live s))"
    and lt: "\<forall>p \<in> fst ` set (live s). p < next_impl s"
    and ui: "map (map_of (live s)) (upload_impl s) = map Some upload_methods"
    and keys: "fst ` set (live s) = set (upload_impl s) \<union> set_option ?q"
    and cur: "\<forall>p. ?q = Some p \<longrightarrow> p \<notin> set (upload_impl s)"
    by (rule session_invD)+
  have k1: "fst ` set (live s1) = fst ` set (live s) - set_option ?q"
    using keys_filter_key[of ?q "live s"] by (simp add: l)
  have look: "\<forall>p\<in>set (upload_impl s). map_of (live s1) p = map_of (live s) p"
    using cur by (auto simp: l map_of_filter_key split: option.splits)
  have ui1: "map (map_of (live s1)) (upload_impl s1) = map Some upload_methods"
    using upload_impl_lookup_keep[OF ui look] by (simp add: f(3))
  have keys1: "fst ` set (live s1) = set (upload_impl s1) \<union> set_option (method_impl s1)"
    using keys cur by (auto simp: k1 f(2,3))
  have d1: "distinct (map fst (live s1))"
    using d by (simp add: l distinct_map_filter)
  have lt1: "\<forall>p \<in> fst ` set (live s1). p < next_impl s1"
    using lt by (auto simp: k1 f(1))
  show ?thesis
    unfolding session_inv_def
    using d1 lt1 ui1 keys1 f by (intro conjI allI impI; simp)
qed


lemma impl_kind_initial [simp]: "impl_kind (initial_impl m) = m"
  by (cases m) (simp_all add: impl_kind_def initial_impl_def)

lemma live_impls:
  "impls s1 = filter (\<lambda>e. Some (fst e) \<noteq> q) (impls s) @ [(n, initial_impl m)] \<Longrightarrow>
   live s1 = filter (\<lambda>e. Some (fst e) \<noteq> q) (live s) @ [(n, m)]"
  by (simp add: live_def filter_map comp_def)

lemma NEXT_METHOD_Restart_live:
  assumes "NEXT_METHOD s = Inr (Restart s')"
  shows "live s' = filter (\<lambda>e. Some (fst e) \<noteq> method_impl s) (live s) @
                     [(next_impl s, upload_methods ! method_i s)]"
  using NEXT_METHOD_Restart_effect[OF assms] by (intro live_impls) simp

lemma method_free_live:
  "live (method_free m impl s) = filter (\<lambda>e. Some (fst e) \<noteq> impl) (live s)"
  by (cases impl) (auto simp: method_free_def live_def filter_map comp_def)

lemma method_free_fields [simp]:
  "method_i (method_free m impl s) = method_i s"
  "method_desc (method_free m impl s) = method_desc s"
  "method_impl (method_free m impl s) = method_impl s"
  "next_impl (method_free m impl s) = next_impl s"
  "upload_impl (method_free m impl s) = upload_impl s"
  "buffers (method_free m impl s) = buffers s"
  by (simp_all add: method_free_def split: option.splits)

lemma unshared_fallback_live:
  assumes "method_desc s \<noteq> None"
  shows "live (unshared_fallback s) =
           filter (\<lambda>e. Some (fst e) \<noteq> method_impl s) (live s) @ [(next_impl s, raw_data_upload)]"
  using assms
  by (auto simp: unshared_fallback_def method_new_def Let_def live_def method_free_def
        filter_map comp_def impl_kind_def initial_impl_def split: option.splits)

lemma exhausted_method_is_raw:
  assumes "session_inv s" "length upload_methods \<le> method_i s" "method_desc s = Some m"
  shows "m = raw_data_upload \<and> method_impl s \<noteq> None"
proof -
  from session_invD(7,8)[OF assms(1)] assms(2) have i: "method_i s = length upload_methods"
    and "method_impl s \<noteq> None" by auto
  then obtain p where "method_impl s = Some p" by auto
  with session_invD(6)[OF assms(1)] assms(3) i show ?thesis
    by (auto simp: upload_methods_eq)
qed

lemma restart_pass_Restart_inv:
  assumes inv: "session_inv s" and pass: "restart_pass E s b = Inr (Restart s1)"
  shows "session_inv s1"
proof -
  have d: "distinct (map fst (impls s))"
    using session_invD(1)[OF inv] by (simp add: distinct_live)
  from pass show ?thesis
  proof (cases rule: restart_pass_cases)
    case (rejected m sa)
    note ka = method_accept_keeps[OF rejected(2)] and la = method_accept_live[OF rejected(2) d]
    note e = NEXT_METHOD_Restart_effect[OF rejected(3)] and l = NEXT_METHOD_Restart_live[OF rejected(3)]
    show ?thesis
      by (rule inv_replace[OF inv, where m = "upload_methods ! method_i s"])
         (use ka la e l in simp_all)
  next
    case (unshared m sa outbuf sp)
    note ka = method_accept_keeps[OF unshared(2)] and la = method_accept_live[OF unshared(2) d]
    have d': "distinct (map fst (impls (record_call (EvAccept m (method_impl s) b True) sa)))"
      using d ka by (simp add: distinct_live[symmetric] la)
    note kp = method_perform_keeps[OF unshared(3)] and lp = method_perform_live[OF unshared(3) d']
    from unshared_only_gl_memory[OF unshared(3)] obtain p where p: "method_impl s = Some p" by auto
    with session_invD(6,7)[OF inv] have i: "0 < method_i s" "method_i s \<le> length upload_methods"
      by auto
    let ?s2 = "record_call (EvPerform m (method_impl s) b GST_GL_UPLOAD_UNSHARED_GL_CONTEXT) sp"
    have md: "method_desc ?s2 \<noteq> None" using kp ka unshared(1) by simp
    show ?thesis
      by (rule inv_replace[OF inv, where m = raw_data_upload])
         (use unshared(4) unshared_fallback_live[OF md] unshared_fallback_fields[of ?s2]
              unshared_fallback_keeps[of ?s2] ka la kp lp i in simp_all)
  next
    case (finished m sa outbuf sp)
    then show ?thesis by simp
  next
    case (failed m sa ret outbuf sp)
    note ka = method_accept_keeps[OF failed(2)] and la = method_accept_live[OF failed(2) d]
    have d': "distinct (map fst (impls (record_call (EvAccept m (method_impl s) b True) sa)))"
      using d ka by (simp add: distinct_live[symmetric] la)
    note kp = method_perform_keeps[OF failed(3)] and lp = method_perform_live[OF failed(3) d']
    note e = NEXT_METHOD_Restart_effect[OF failed(6)] and l = NEXT_METHOD_Restart_live[OF failed(6)]
    show ?thesis
      by (rule inv_replace[OF inv, where m = "upload_methods ! method_i s"])
         (use ka la kp lp e l in \<open>simp_all add: method_free_live\<close>)
  qed
qed

lemma restart_pass_Leave_inv:
  assumes inv: "session_inv s" and pass: "restart_pass E s b = Inr (Leave ret ob s')"
  shows "session_inv s'"
proof -
  have d: "distinct (map fst (impls s))"
    using session_invD(1)[OF inv] by (simp add: distinct_live)
  from pass show ?thesis
  proof (cases rule: restart_pass_cases)
    case (rejected m sa)
    note ka = method_accept_keeps[OF rejected(2)] and la = method_accept_live[OF rejected(2) d]
    from NEXT_METHOD_Leave[OF rejected(3)] ka la show ?thesis
      by (intro inv_same[OF inv]) simp_all
  next
    case (unshared m sa outbuf sp)
    then show ?thesis by simp
  next
    case (finished m sa outbuf sp)
    note ka = method_accept_keeps[OF finished(2)] and la = method_accept_live[OF finished(2) d]
    have d': "distinct (map fst (impls (record_call (EvAccept m (method_impl s) b True) sa)))"
      using d ka by (simp add: distinct_live[symmetric] la)
    note kp = method_perform_keeps[OF finished(3)] and lp = method_perform_live[OF finished(3) d']
    from finished(4) ka la kp lp show ?thesis
      by (intro inv_same[OF inv]) simp_all
  next
    case (failed m sa r outbuf sp)
    note ka = method_accept_keeps[OF failed(2)]
    note kp = method_perform_keeps[OF failed(3)]
    from NEXT_METHOD_Leave[OF failed(6)] have "length upload_methods \<le> method_i s"
      using ka kp by simp
    from exhausted_method_is_raw[OF inv this failed(1)] have "m = raw_data_upload" by simp
    with raw_perform_done failed(3,5) show ?thesis by blast
  qed
qed

lemma upload_restart_inv:
  assumes "upload_restart E s b = Inr (ret, ob, s')" "session_inv s"
  shows "session_inv s'"
  using assms
proof (induction rule: upload_restart_induct)
  case (leave s)
  then show ?case by (rule restart_pass_Leave_inv[rotated])
next
  case (again s s1)
  from again(3)[OF restart_pass_Restart_inv[OF again(4) again(1)]] show ?case .
qed

lemma upload_find_method_as_NEXT_METHOD:
  "upload_find_method s = Inr (found, s0) \<Longrightarrow>
   NEXT_METHOD s = Inr (if found then Restart s0 else Leave RETURN_FALSE None s0)"
  by (simp add: NEXT_METHOD_def)

lemma upload_find_method_inv:
  assumes "upload_find_method s = Inr (found, s0)" "session_inv s"
  shows "session_inv s0 \<and> (method_impl s = None \<longrightarrow> found \<and> 0 < method_i s0)"
proof (cases found)
  case True
  with upload_find_method_as_NEXT_METHOD[OF assms(1)] have n: "NEXT_METHOD s = Inr (Restart s0)"
    by simp
  note e = NEXT_METHOD_Restart_effect[OF n] and l = NEXT_METHOD_Restart_live[OF n]
  have "session_inv s0"
    by (rule inv_replace[OF assms(2), where m = "upload_methods ! method_i s"])
       (use e l in simp_all)
  with True e show ?thesis by simp
next
  case False
  with upload_find_method_as_NEXT_METHOD[OF assms(1)]
  have n: "NEXT_METHOD s = Inr (Leave RETURN_FALSE None s0)" by simp
  from NEXT_METHOD_Leave[OF n] session_invD(8)[OF assms(2)] assms(2) show ?thesis by auto
qed

text \<open>The state at the label \<open>restart\<close> of a call, and the call in terms of it.\<close>

lemma perform_with_buffer_cases:
  assumes "gst_gl_upload_perform_with_buffer E s b = Inr (ret, ob, s')"
  obtains
    (no_buffer) "\<not> b < length (buffers s)" "ret = RETURN_FALSE" "ob = None" "s' = s"
  | (ran) s0 ob1 s1 where "b < length (buffers s)"
      "find_first_method s = Inr s0"
      "upload_restart E s0 b = Inr (ret, ob1, s1)"
      "ret \<noteq> GST_GL_UPLOAD_DONE \<longrightarrow> ob = None \<and> s' = s1"
      "ret = GST_GL_UPLOAD_DONE \<longrightarrow>
         (\<exists>out. ob1 = Some out \<and> ob = Some out \<and> s' = copy_metadata b out s1)"
proof (cases "b < length (buffers s)")
  case False
  with assms show ?thesis
    by (intro no_buffer) (simp_all add: gst_gl_upload_perform_with_buffer_def)
next
  case True
  with assms obtain s0 where s0: "find_first_method s = Inr s0"
    by (auto simp: gst_gl_upload_perform_with_buffer_def split: sum.splits)
  with assms True obtain r1 ob1 s1 where r: "upload_restart E s0 b = Inr (r1, ob1, s1)"
    by (auto simp: gst_gl_upload_perform_with_buffer_def split: sum.splits)
  from assms True s0 r show ?thesis
    by (intro ran[of s0 ob1 s1])
       (auto simp: gst_gl_upload_perform_with_buffer_def split: if_splits option.splits)
qed

lemma find_first_method_inv:
  assumes "find_first_method s = Inr s0" "session_inv s"
  shows "session_inv s0 \<and> 0 < method_i s0"
proof (cases "method_impl s")
  case None
  with assms(1) obtain found where "upload_find_method s = Inr (found, s0)"
    by (auto simp: find_first_method_def split: sum.splits)
  from upload_find_method_inv[OF this assms(2)] None show ?thesis by simp
next
  case (Some p)
  with assms session_invD(6)[OF assms(2)] show ?thesis
    by (simp add: find_first_method_def)
qed

lemma copy_metadata_fields [simp]:
  "live (copy_metadata b out s) = live s"
  "next_impl (copy_metadata b out s) = next_impl s"
  "method_impl (copy_metadata b out s) = method_impl s"
  "method_desc (copy_metadata b out s) = method_desc s"
  "upload_impl (copy_metadata b out s) = upload_impl s"
  "method_i (copy_metadata b out s) = method_i s"
  "calls (copy_metadata b out s) = calls s"
  "in_caps (copy_metadata b out s) = in_caps s"
  "out_caps (copy_metadata b out s) = out_caps s"
  by (simp_all add: copy_metadata_def)

lemma perform_with_buffer_inv:
  assumes "gst_gl_upload_perform_with_buffer E s b = Inr (ret, ob, s')" "session_inv s"
  shows "session_inv s'"
  using assms(1)
proof (cases rule: perform_with_buffer_cases)
  case no_buffer
  with assms(2) show ?thesis by simp
next
  case (ran s0 ob1 s1)
  from find_first_method_inv[OF ran(2) assms(2)] have "session_inv s0" by simp
  from upload_restart_inv[OF ran(3) this] have i1: "session_inv s1" .
  show ?thesis
  proof (cases "ret = GST_GL_UPLOAD_DONE")
    case True
    with ran(5) obtain out where "s' = copy_metadata b out s1" by auto
    then show ?thesis
      by (intro inv_same[OF i1]) simp_all
  next
    case False
    with ran(4) i1 show ?thesis by simp
  qed
qed

lemma free_current_live:
  "free_current s = Inr s3 \<Longrightarrow>
   live s3 = filter (\<lambda>e. Some (fst e) \<noteq> method_impl s) (live s) \<and>
   next_impl s3 = next_impl s \<and> upload_impl s3 = upload_impl s"
  by (auto simp: free_current_def method_free_live split: option.splits)

lemma set_caps_inv:
  assumes "gst_gl_upload_set_caps E s new_in new_out = Inr (r, s')" "session_inv s"
  shows "session_inv s'"
proof (cases "s' = s")
  case True
  with assms(2) show ?thesis by simp
next
  case False
  with assms(1) obtain s3 where
    f: "free_current (s\<lparr>in_caps := Some new_in, out_caps := Some new_out,
              in_info := set_info (gst_video_info_from_caps E new_in) (in_info s),
              out_info := set_info (gst_video_info_from_caps E new_out) (out_info s)\<rparr>) = Inr s3"
      and s': "s' = s3\<lparr>method_impl := None, method_i := 0\<rparr>"
    by (auto simp: gst_gl_upload_set_caps_def gst_gl_upload_set_caps_unlocked_def Let_def
          split: if_splits sum.splits)
  show ?thesis
    by (rule inv_drop[OF assms(2)])
       (use free_current_live[OF f] s' in \<open>simp_all add: upload_methods_eq\<close>)
qed

lemma new_inv: "session_inv (gst_gl_upload_new ctx)"
  by (simp add: session_inv_def gst_gl_upload_new_def upload_methods_eq method_new_def live_def
        impl_kind_def initial_impl_def)

lemma reachable_inv: "reachable E s \<Longrightarrow> session_inv s"
proof (induction rule: reachable.induct)
  case (created ctx)
  show ?case by (rule new_inv)
next
  case (arrived s buf)
  then show ?case by (auto simp: buffer_arrives_def intro: inv_same)
next
  case (caps_set s new_in new_out r s')
  then show ?case using set_caps_inv by blast
next
  case (performed s b ret ob s')
  then show ?case using perform_with_buffer_inv by blast
qed


lemmas evaluation =
  gst_gl_upload_perform_with_buffer_def find_first_method_def copy_metadata_def
  upload_find_method_def free_current_def
  method_new_def method_free_def restart_pass_def NEXT_METHOD_def record_call_def
  unshared_fallback_def method_accept_def method_perform_def
  gl_memory_upload_accept_def egl_image_upload_accept_def upload_meta_upload_accept_def
  raw_data_upload_accept_def raw_upload_frame_new_def
  gl_memory_upload_perform_def egl_image_upload_perform_def upload_meta_upload_perform_def
  raw_data_upload_perform_def deref_impl_def store_impl_def expected_memories_def
  caps_has_feature_def rgba_caps_def example_externals_def info_of_planes_def
  new_buffer_def initial_impl_def upload_methods_eq gst_buffer_copy_into_def
  GST_CAPS_FEATURE_MEMORY_SYSTEM_MEMORY_def GST_CAPS_FEATURE_MEMORY_GL_MEMORY_def
  GST_CAPS_FEATURE_MEMORY_EGL_IMAGE_def GST_CAPS_FEATURE_META_GST_VIDEO_GL_TEXTURE_UPLOAD_META_def
  GST_GL_UPLOAD_MAX_PLANES_def Let_def example_session_def
  foreign_gl_buffer_def own_gl_buffer_def empty_buffer_def system_buffer_def meta_buffer_def

lemmas outcomes =
  foreign_gl_outcome_def passthrough_outcome_def exhausted_session_def
  after_exhaustion_outcome_def meta_failed_outcome_def meta_done_outcome_def
  raw_done_outcome_def two_memory_buffer_def

lemma run_foreign_gl:
  "gst_gl_upload_perform_with_buffer example_externals
      (example_session GST_CAPS_FEATURE_MEMORY_GL_MEMORY [foreign_gl_buffer]) 0
   = Inr (RETURN_FALSE, None, foreign_gl_outcome)"
  by (simp add: evaluation outcomes)

lemma run_own_gl:
  "gst_gl_upload_perform_with_buffer example_externals
      (example_session GST_CAPS_FEATURE_MEMORY_GL_MEMORY [own_gl_buffer]) 0
   = Inr (GST_GL_UPLOAD_DONE, Some 0, passthrough_outcome)"
  by (simp add: evaluation outcomes)

lemma run_all_reject:
  "gst_gl_upload_perform_with_buffer example_externals
      (example_session GST_CAPS_FEATURE_MEMORY_SYSTEM_MEMORY [empty_buffer, system_buffer]) 0
   = Inr (RETURN_FALSE, None, exhausted_session)"
  by (simp add: evaluation outcomes)

lemma run_after_exhaustion:
  "gst_gl_upload_perform_with_buffer example_externals exhausted_session 1
   = Inr (GST_GL_UPLOAD_DONE, Some 2, after_exhaustion_outcome)"
  by (simp add: evaluation outcomes)

lemma run_meta_fails:
  "gst_gl_upload_perform_with_buffer example_externals
      (example_session GST_CAPS_FEATURE_META_GST_VIDEO_GL_TEXTURE_UPLOAD_META
         [meta_buffer False []]) 0
   = Inr (RETURN_FALSE, None, meta_failed_outcome)"
  by (simp add: evaluation outcomes)

lemma run_meta_two_memories:
  "gst_gl_upload_perform_with_buffer example_externals
      (example_session GST_CAPS_FEATURE_META_GST_VIDEO_GL_TEXTURE_UPLOAD_META
         [meta_buffer True [GstSystemMemory, GstSystemMemory]]) 0
   = Inr (GST_GL_UPLOAD_DONE, Some 1, meta_done_outcome)"
  by (simp add: evaluation outcomes)

lemma run_raw_two_memories:
  "gst_gl_upload_perform_with_buffer example_externals
      (example_session GST_CAPS_FEATURE_MEMORY_SYSTEM_MEMORY [two_memory_buffer]) 0
   = Inr (GST_GL_UPLOAD_DONE, Some 1, raw_done_outcome)"
  by (simp add: evaluation outcomes)

lemma example_session_set_caps:
  "gst_gl_upload_set_caps example_externals (gst_gl_upload_new 0) (rgba_caps feature)
      (rgba_caps GST_CAPS_FEATURE_MEMORY_GL_MEMORY) = Inr (True, example_session feature [])"
  by (simp add: gst_gl_upload_set_caps_def gst_gl_upload_set_caps_unlocked_def
        gst_gl_upload_new_def upload_methods_eq method_new_def initial_impl_def
        free_current_def example_session_def rgba_caps_def example_externals_def
        set_info_def zeroed_info_def Let_def)

lemma example_session_arrives:
  "example_session feature (bs @ [buf]) = buffer_arrives buf (example_session feature bs)"
  by (simp add: example_session_def buffer_arrives_def)

lemma example_session_reachable:
  "reachable example_externals (example_session feature bs)"
proof (induction bs rule: rev_induct)
  case Nil
  show ?case
    by (rule reachable.caps_set[OF reachable.created example_session_set_caps])
next
  case (snoc buf bs)
  then show ?case
    by (simp add: example_session_arrives reachable.arrived)
qed


lemma renegotiate:
  "gst_gl_upload_set_caps example_externals passthrough_outcome
      (rgba_caps GST_CAPS_FEATURE_MEMORY_SYSTEM_MEMORY) (rgba_caps GST_CAPS_FEATURE_MEMORY_GL_MEMORY)
   = Inr (True, renegotiated_session)"
  by (simp add: gst_gl_upload_set_caps_def gst_gl_upload_set_caps_unlocked_def
        renegotiated_session_def passthrough_outcome_def example_session_def rgba_caps_def
        gst_caps_is_equal_def gst_structure_is_subset_def
        GST_CAPS_FEATURE_MEMORY_SYSTEM_MEMORY_def GST_CAPS_FEATURE_MEMORY_GL_MEMORY_def
        free_current_def method_free_def set_info_def example_externals_def info_of_planes_def
        Let_def)

lemma passthrough_outcome_reachable: "reachable example_externals passthrough_outcome"
  by (rule reachable.performed[OF example_session_reachable run_own_gl])

lemma exhausted_session_reachable: "reachable example_externals exhausted_session"
  by (rule reachable.performed[OF example_session_reachable run_all_reject])

lemma find_first_method_effect:
  assumes "find_first_method s = Inr s0"
  shows "buffers s0 = buffers s \<and> in_caps s0 = in_caps s \<and> out_caps s0 = out_caps s \<and>
         method_i s \<le> method_i s0 \<and>
         (\<exists>pre. calls s0 = calls s @ pre \<and> (pre = [] \<or> (\<exists>m q. pre = [EvNew m q])))"
proof (cases "method_impl s")
  case None
  with assms obtain found where f: "upload_find_method s = Inr (found, s0)"
    by (auto simp: find_first_method_def split: sum.splits)
  show ?thesis
  proof (cases found)
    case True
    with upload_find_method_as_NEXT_METHOD[OF f] have "NEXT_METHOD s = Inr (Restart s0)" by simp
    from NEXT_METHOD_Restart_effect[OF this] None show ?thesis by simp
  next
    case False
    with upload_find_method_as_NEXT_METHOD[OF f]
    have "NEXT_METHOD s = Inr (Leave RETURN_FALSE None s0)" by simp
    from NEXT_METHOD_Leave[OF this] show ?thesis by simp
  qed
next
  case (Some p)
  with assms show ?thesis by (simp add: find_first_method_def)
qed

lemma fallback_follows_frees [simp]:
  "fallback_follows (frees m i @ es) = fallback_follows es"
  by (simp add: frees_def split: option.splits)

lemma fallback_follows_only_frees [simp]: "fallback_follows (frees m i)"
  by (simp add: frees_def split: option.splits)

lemma upload_restart_fallback:
  assumes "upload_restart E s b = Inr (ret, ob, s')"
  shows "\<exists>m a rest. method_desc s = Some m \<and>
           calls s' = calls s @ EvAccept m (method_impl s) b a # rest \<and>
           fallback_follows (EvAccept m (method_impl s) b a # rest)"
  using assms
proof (induction rule: upload_restart_induct)
  case (leave s)
  from leave show ?case
    by (cases rule: restart_pass_Leave_cases) auto
next
  case (again s s1)
  from again(3) obtain m1 a1 rest1 where
    m1: "method_desc s1 = Some m1"
    and c1: "calls s' = calls s1 @ EvAccept m1 (method_impl s1) b a1 # rest1"
    and f1: "fallback_follows (EvAccept m1 (method_impl s1) b a1 # rest1)"
    by blast
  from again(1) show ?case
  proof (cases rule: restart_pass_Restart_cases)
    case (rejected m)
    with m1 c1 f1 show ?thesis by auto
  next
    case (unshared p)
    with m1 c1 f1 show ?thesis by auto
  next
    case (failed m ret)
    with m1 c1 f1 show ?thesis by auto
  qed
qed

text \<open>
  C1. When the perform function of the current method answers
  GST_GL_UPLOAD_UNSHARED_GL_CONTEXT during gst_gl_upload_perform_with_buffer, the very
  next calls through the method table are: free of the instance that performed, new of
  the raw-data method, and accept of that new instance for the same buffer; and
  GST_GL_UPLOAD_UNSHARED_GL_CONTEXT is never what the function returns.
\<close>

theorem unshared_context_falls_back_to_raw_data:
  assumes "gst_gl_upload_perform_with_buffer E s b = Inr (ret, ob, s')"
  shows "ret \<noteq> GST_GL_UPLOAD_UNSHARED_GL_CONTEXT \<and>
         (\<exists>new. calls s' = calls s @ new \<and> fallback_follows new)"
  using assms
proof (cases rule: perform_with_buffer_cases)
  case no_buffer
  then show ?thesis by simp
next
  case (ran s0 ob1 s1)
  from upload_restart_result[OF ran(3)] have r: "ret \<noteq> GST_GL_UPLOAD_UNSHARED_GL_CONTEXT"
    by auto
  from find_first_method_effect[OF ran(2)] obtain pre where
    pre: "calls s0 = calls s @ pre" "pre = [] \<or> (\<exists>m q. pre = [EvNew m q])" by blast
  from upload_restart_fallback[OF ran(3)] obtain new1 where
    n: "calls s1 = calls s0 @ new1" "fallback_follows new1" by blast
  have c: "calls s' = calls s1" using ran(4,5) by (cases "ret = GST_GL_UPLOAD_DONE") auto
  have "fallback_follows (pre @ new1)" using pre(2) n(2) by auto
  with c n(1) pre(1) r show ?thesis by simp
qed

theorem unshared_context_falls_back_to_raw_data_witness:
  "gst_gl_upload_perform_with_buffer example_externals
      (example_session GST_CAPS_FEATURE_MEMORY_GL_MEMORY [foreign_gl_buffer]) 0
     = Inr (RETURN_FALSE, None, foreign_gl_outcome) \<and>
   performed_results (calls foreign_gl_outcome) = [GST_GL_UPLOAD_UNSHARED_GL_CONTEXT] \<and>
   (\<exists>new. calls foreign_gl_outcome =
            calls (example_session GST_CAPS_FEATURE_MEMORY_GL_MEMORY [foreign_gl_buffer]) @ new \<and>
          fallback_follows new)"
  using unshared_context_falls_back_to_raw_data[OF run_foreign_gl] run_foreign_gl
  by (simp add: foreign_gl_outcome_def example_session_def)


lemma gst_caps_is_equal_refl: "gst_caps_is_equal c c"
  by (simp add: gst_caps_is_equal_def)

lemma find_first_method_current:
  assumes "find_first_method s = Inr s0" "session_inv s"
  shows "method_impl s0 \<noteq> None"
proof (cases "method_impl s")
  case None
  with assms(1) obtain found where f: "upload_find_method s = Inr (found, s0)"
    by (auto simp: find_first_method_def split: sum.splits)
  from upload_find_method_inv[OF f assms(2)] None have "found" by simp
  with upload_find_method_as_NEXT_METHOD[OF f] have "NEXT_METHOD s = Inr (Restart s0)" by simp
  from NEXT_METHOD_Restart_effect[OF this] show ?thesis by simp
next
  case (Some p)
  with assms(1) show ?thesis by (simp add: find_first_method_def)
qed

lemma candidates_bounds:
  assumes "session_inv s" "method_impl s \<noteq> None"
  shows "length (candidates s) \<le> length upload_methods + 1 \<and>
         (\<forall>m. m \<noteq> raw_data_upload \<longrightarrow> length (filter ((=) m) (candidates s)) \<le> 1) \<and>
         length (filter ((=) raw_data_upload) (candidates s)) \<le> 2"
proof -
  from assms(2) obtain p where p: "method_impl s = Some p" by auto
  with session_invD(6,7)[OF assms(1)] obtain m where
    i: "0 < method_i s" "method_i s \<le> length upload_methods"
    and m: "method_desc s = Some m" "m = upload_methods ! (method_i s - 1) \<or> m = raw_data_upload"
    by auto
  from i have "method_i s = 1 \<or> method_i s = 2 \<or> method_i s = 3 \<or> method_i s = 4"
    by (auto simp: upload_methods_eq)
  with m show ?thesis
    by (auto simp: candidates_def upload_methods_eq)
qed

lemma performed_results_append [simp]:
  "performed_results (xs @ ys) = performed_results xs @ performed_results ys"
  by (induction xs rule: performed_results.induct) simp_all

lemma performed_results_frees [simp]: "performed_results (frees m i) = []"
  by (simp add: frees_def split: option.splits)

lemma upload_restart_calls:
  assumes "upload_restart E s b = Inr (ret, ob, s')"
  shows "\<exists>new. calls s' = calls s @ new"
  using assms
proof (induction rule: upload_restart_induct)
  case (leave s)
  from leave(1) show ?case by (cases rule: restart_pass_Leave_cases) simp_all
next
  case (again s s1)
  from again(1) again(3) show ?case by (cases rule: restart_pass_Restart_cases) auto
qed

text \<open>Only the GL-memory method answers GST_GL_UPLOAD_UNSHARED_GL_CONTEXT, and it is
  current only as the first entry of the table.\<close>

lemma upload_restart_no_unshared:
  assumes "upload_restart E s b = Inr (ret, ob, s')"
    and "method_desc s \<noteq> Some gl_memory_upload" and "0 < method_i s"
    and "calls s' = calls s @ new"
  shows "GST_GL_UPLOAD_UNSHARED_GL_CONTEXT \<notin> set (performed_results new)"
  using assms
proof (induction arbitrary: new rule: upload_restart_induct)
  case (leave s)
  from leave(1) leave(4) show ?case
    by (cases rule: restart_pass_Leave_cases) auto
next
  case (again s s1)
  from upload_restart_calls[OF again(2)] obtain new1 where n1: "calls s' = calls s1 @ new1"
    by blast
  from again(1) show ?case
  proof (cases rule: restart_pass_Restart_cases)
    case (rejected m)
    from rejected again(5) have "method_desc s1 \<noteq> Some gl_memory_upload" "0 < method_i s1"
      by (simp_all add: later_method_not_gl)
    from again(3)[OF this n1] rejected(3) n1 again(6) show ?thesis by auto
  next
    case (unshared p)
    with again(4) show ?thesis by simp
  next
    case (failed m r)
    from failed again(5) have "method_desc s1 \<noteq> Some gl_memory_upload" "0 < method_i s1"
      by (simp_all add: later_method_not_gl)
    from again(3)[OF this n1] failed(3,5) n1 again(6) show ?thesis by auto
  qed
qed

lemma upload_restart_unshared_once:
  assumes "upload_restart E s b = Inr (ret, ob, s')" and "0 < method_i s"
    and "calls s' = calls s @ new"
  shows "length (filter ((=) GST_GL_UPLOAD_UNSHARED_GL_CONTEXT) (performed_results new)) \<le> 1"
  using assms
proof (induction arbitrary: new rule: upload_restart_induct)
  case (leave s)
  from leave(1) leave(3) show ?case
    by (cases rule: restart_pass_Leave_cases) auto
next
  case (again s s1)
  from upload_restart_calls[OF again(2)] obtain new1 where n1: "calls s' = calls s1 @ new1"
    by blast
  from again(1) show ?case
  proof (cases rule: restart_pass_Restart_cases)
    case (rejected m)
    from again(3)[OF _ n1] rejected n1 again(5) show ?thesis by auto
  next
    case (unshared p)
    from unshared again(4) have "method_desc s1 \<noteq> Some gl_memory_upload" "0 < method_i s1"
      by simp_all
    from upload_restart_no_unshared[OF again(2) this n1]
    have "filter ((=) GST_GL_UPLOAD_UNSHARED_GL_CONTEXT) (performed_results new1) = []"
      by (auto simp: filter_empty_conv)
    with unshared(3) n1 again(5) show ?thesis by auto
  next
    case (failed m r)
    from again(3)[OF _ n1] failed n1 again(5) show ?thesis by auto
  qed
qed

text \<open>Without such an answer the strategies are asked in table order, after the current
  one.\<close>

lemma upload_restart_in_order:
  assumes "upload_restart E s b = Inr (ret, ob, s')" and "method_desc s = Some m"
    and "calls s' = calls s @ new"
  shows "GST_GL_UPLOAD_UNSHARED_GL_CONTEXT \<in> set (performed_results new) \<or>
         subseq (accepted_methods new) (m # drop (method_i s) upload_methods)"
  using assms
proof (induction arbitrary: new m rule: upload_restart_induct)
  case (leave s)
  from leave(1) leave(2,3) show ?case
    by (cases rule: restart_pass_Leave_cases) auto
next
  case (again s s1)
  from upload_restart_calls[OF again(2)] obtain new1 where n1: "calls s' = calls s1 @ new1"
    by blast
  from again(1) show ?case
  proof (cases rule: restart_pass_Restart_cases)
    case (rejected m')
    from again(3)[OF rejected(4) n1] rejected(5)
    have "GST_GL_UPLOAD_UNSHARED_GL_CONTEXT \<in> set (performed_results new1) \<or>
          subseq (accepted_methods new1) (drop (method_i s) upload_methods)"
      using rejected(2) by (simp add: drop_upload_methods)
    moreover have "new = EvAccept m' (method_impl s) b False # frees m' (method_impl s) @
                    [EvNew (upload_methods ! method_i s) (next_impl s)] @ new1"
      using rejected(3) n1 again(5) by simp
    ultimately show ?thesis using rejected(1) again(4) by auto
  next
    case (unshared p)
    with n1 again(5) show ?thesis by auto
  next
    case (failed m' r)
    from again(3)[OF failed(6) n1] failed(7)
    have "GST_GL_UPLOAD_UNSHARED_GL_CONTEXT \<in> set (performed_results new1) \<or>
          subseq (accepted_methods new1) (drop (method_i s) upload_methods)"
      using failed(2) by (simp add: drop_upload_methods)
    moreover have "new = [EvAccept m' (method_impl s) b True, EvPerform m' (method_impl s) b r] @
                    frees m' (method_impl s) @
                    [EvNew (upload_methods ! method_i s) (next_impl s)] @ new1"
      using failed(5) n1 again(5) by simp
    ultimately show ?thesis using failed(1) again(4) by auto
  qed
qed

lemma find_first_method_candidates:
  assumes "find_first_method s = Inr s0" "session_inv s"
  shows "candidates s0 = call_candidates s \<and>
         (\<exists>m. method_desc s0 = Some m \<and>
              (m = raw_data_upload \<and> method_i s0 < length upload_methods \<longrightarrow>
                 method_impl s \<noteq> None \<and> method_desc s = Some raw_data_upload \<and>
                 method_i s < length upload_methods))"
proof (cases "method_impl s")
  case None
  with assms(1) obtain found where f: "upload_find_method s = Inr (found, s0)"
    by (auto simp: find_first_method_def split: sum.splits)
  from upload_find_method_inv[OF f assms(2)] None have "found" by simp
  with upload_find_method_as_NEXT_METHOD[OF f] have "NEXT_METHOD s = Inr (Restart s0)" by simp
  note e = NEXT_METHOD_Restart_effect[OF this]
  from e have "method_i s = 0 \<or> method_i s = 1 \<or> method_i s = 2 \<or> method_i s = 3"
    by (auto simp: upload_methods_eq)
  with e None show ?thesis
    by (auto simp: candidates_def call_candidates_def Let_def upload_methods_eq)
next
  case (Some p)
  with assms(1) have s0: "s0 = s" by (simp add: find_first_method_def)
  from session_invD(6)[OF assms(2)] Some obtain m where "method_desc s = Some m" by auto
  with s0 Some show ?thesis by (simp add: call_candidates_def)
qed

lemma run_fallback_done:
  "gst_gl_upload_perform_with_buffer mapping_externals
      (example_session GST_CAPS_FEATURE_MEMORY_GL_MEMORY [foreign_gl_buffer, empty_buffer]) 0
   = Inr (GST_GL_UPLOAD_DONE, Some 2, fallback_done_outcome)"
  by (simp add: evaluation outcomes mapping_externals_def fallback_done_outcome_def)

lemma run_raw_twice:
  "gst_gl_upload_perform_with_buffer mapping_externals fallback_done_outcome 1
   = Inr (RETURN_FALSE, None, raw_twice_outcome)"
  by (simp add: evaluation outcomes mapping_externals_def fallback_done_outcome_def
        raw_twice_outcome_def)

lemma mapping_session_set_caps:
  "gst_gl_upload_set_caps mapping_externals (gst_gl_upload_new 0) (rgba_caps feature)
      (rgba_caps GST_CAPS_FEATURE_MEMORY_GL_MEMORY) = Inr (True, example_session feature [])"
  by (simp add: gst_gl_upload_set_caps_def gst_gl_upload_set_caps_unlocked_def
        gst_gl_upload_new_def upload_methods_eq method_new_def initial_impl_def
        free_current_def example_session_def rgba_caps_def example_externals_def
        mapping_externals_def set_info_def zeroed_info_def Let_def)

lemma mapping_session_reachable:
  "reachable mapping_externals (example_session feature bs)"
proof (induction bs rule: rev_induct)
  case Nil
  show ?case
    by (rule reachable.caps_set[OF reachable.created mapping_session_set_caps])
next
  case (snoc buf bs)
  then show ?case
    by (simp add: example_session_arrives reachable.arrived)
qed

lemma fallback_done_outcome_reachable: "reachable mapping_externals fallback_done_outcome"
  by (rule reachable.performed[OF mapping_session_reachable run_fallback_done])

text \<open>
  C2, as the code has it. Every call of gst_gl_upload_perform_with_buffer on a session
  returns (the function is total) after asking at most one strategy more than
  upload_methods has entries, and no more than upload_methods has entries unless a
  perform of that call answered GST_GL_UPLOAD_UNSHARED_GL_CONTEXT, which happens at
  most once in a call. The strategies asked are, in this order and each at most once,
  entries of \<open>call_candidates\<close>: the current method (or the entry at method_i when
  there is none), the raw-data method if that one is the GL-memory method, then the
  entries of upload_methods from method_i on. So the GL-memory, EGL-image and
  upload-meta methods are asked to accept at most once in a call, the raw-data method
  at most twice, and twice only when a perform of that call answered
  GST_GL_UPLOAD_UNSHARED_GL_CONTEXT or when the raw-data method was current at the
  start of the call with method_i still inside the table.
\<close>

theorem fallback_attempts_bounded:
  assumes "reachable E s" "gst_gl_upload_perform_with_buffer E s b = Inr (ret, ob, s')"
  shows "\<exists>new. calls s' = calls s @ new \<and>
           subseq (accepted_methods new) (call_candidates s) \<and>
           length (accepted_methods new) \<le> length upload_methods + 1 \<and>
           (\<forall>m. m \<noteq> raw_data_upload \<longrightarrow> length (filter ((=) m) (accepted_methods new)) \<le> 1) \<and>
           length (filter ((=) raw_data_upload) (accepted_methods new)) \<le> 2 \<and>
           length (filter ((=) GST_GL_UPLOAD_UNSHARED_GL_CONTEXT) (performed_results new)) \<le> 1 \<and>
           (length (filter ((=) raw_data_upload) (accepted_methods new)) = 2 \<longrightarrow>
              GST_GL_UPLOAD_UNSHARED_GL_CONTEXT \<in> set (performed_results new) \<or>
              (method_impl s \<noteq> None \<and> method_desc s = Some raw_data_upload \<and>
               method_i s < length upload_methods)) \<and>
           (length upload_methods < length (accepted_methods new) \<longrightarrow>
              GST_GL_UPLOAD_UNSHARED_GL_CONTEXT \<in> set (performed_results new))"
  using assms(2)
proof (cases rule: perform_with_buffer_cases)
  case no_buffer
  then show ?thesis by simp
next
  case (ran s0 ob1 s1)
  note inv = reachable_inv[OF assms(1)]
  from find_first_method_inv[OF ran(2) inv] have inv0: "session_inv s0" and i0: "0 < method_i s0"
    by simp_all
  note cur0 = find_first_method_current[OF ran(2) inv]
  from find_first_method_effect[OF ran(2)] obtain pre where
    pre: "calls s0 = calls s @ pre" "pre = [] \<or> (\<exists>m q. pre = [EvNew m q])" by blast
  from find_first_method_candidates[OF ran(2) inv] obtain m0 where
    cc: "candidates s0 = call_candidates s" and m0: "method_desc s0 = Some m0"
    and early: "m0 = raw_data_upload \<and> method_i s0 < length upload_methods \<longrightarrow>
                 method_impl s \<noteq> None \<and> method_desc s = Some raw_data_upload \<and>
                 method_i s < length upload_methods"
    by blast
  from upload_restart_accepts[OF ran(3) i0] obtain new1 where
    n: "calls s1 = calls s0 @ new1" "subseq (accepted_methods new1) (candidates s0)" by blast
  have c: "calls s' = calls s1" using ran(4,5) by (cases "ret = GST_GL_UPLOAD_DONE") auto
  have a: "accepted_methods (pre @ new1) = accepted_methods new1"
    "performed_results (pre @ new1) = performed_results new1" using pre(2) by auto
  note cb = candidates_bounds[OF inv0 cur0]
  have l: "length (accepted_methods new1) \<le> length upload_methods + 1"
    using list_emb_length[OF n(2)] cb by simp
  have f: "length (filter ((=) m) (accepted_methods new1)) \<le> length (filter ((=) m) (candidates s0))"
    for m
    using list_emb_length[OF subseq_filter[OF n(2)]] .
  have f1: "\<forall>m. m \<noteq> raw_data_upload \<longrightarrow> length (filter ((=) m) (accepted_methods new1)) \<le> 1"
    using f cb by (meson le_trans)
  have f2: "length (filter ((=) raw_data_upload) (accepted_methods new1)) \<le> 2"
    using f[of raw_data_upload] cb by simp
  note u1 = upload_restart_unshared_once[OF ran(3) i0 n(1)]
  note ord = upload_restart_in_order[OF ran(3) m0 n(1)]
  from session_invD(7)[OF inv0] i0
  have i04: "method_i s0 = 1 \<or> method_i s0 = 2 \<or> method_i s0 = 3 \<or> method_i s0 = 4"
    by (auto simp: upload_methods_eq)
  have two: "GST_GL_UPLOAD_UNSHARED_GL_CONTEXT \<in> set (performed_results new1) \<or>
              (method_impl s \<noteq> None \<and> method_desc s = Some raw_data_upload \<and>
               method_i s < length upload_methods)"
    if t: "length (filter ((=) raw_data_upload) (accepted_methods new1)) = 2"
  proof (cases "GST_GL_UPLOAD_UNSHARED_GL_CONTEXT \<in> set (performed_results new1)")
    case True
    then show ?thesis by simp
  next
    case False
    with ord have sq: "subseq (accepted_methods new1) (m0 # drop (method_i s0) upload_methods)"
      by simp
    from list_emb_length[OF subseq_filter[OF sq, of "(=) raw_data_upload"]] t
    have "2 \<le> length (filter ((=) raw_data_upload) (m0 # drop (method_i s0) upload_methods))"
      by simp
    with i04 have "m0 = raw_data_upload \<and> method_i s0 < length upload_methods"
      by (auto simp: upload_methods_eq split: if_splits)
    with early show ?thesis by simp
  qed
  have more: "GST_GL_UPLOAD_UNSHARED_GL_CONTEXT \<in> set (performed_results new1)"
    if t: "length upload_methods < length (accepted_methods new1)"
  proof (rule ccontr)
    assume "GST_GL_UPLOAD_UNSHARED_GL_CONTEXT \<notin> set (performed_results new1)"
    with ord have sq: "subseq (accepted_methods new1) (m0 # drop (method_i s0) upload_methods)"
      by simp
    from list_emb_length[OF sq] t i04 show False by (auto simp: upload_methods_eq)
  qed
  show ?thesis
    by (rule exI[of _ "pre @ new1"]) (use c n pre(1) a l f1 f2 u1 two more cc in simp)
qed

theorem fallback_attempts_bounded_witness:
  "reachable example_externals
      (example_session GST_CAPS_FEATURE_MEMORY_GL_MEMORY [foreign_gl_buffer]) \<and>
   gst_gl_upload_perform_with_buffer example_externals
      (example_session GST_CAPS_FEATURE_MEMORY_GL_MEMORY [foreign_gl_buffer]) 0
     = Inr (RETURN_FALSE, None, foreign_gl_outcome) \<and>
   (\<exists>new. calls foreign_gl_outcome =
            calls (example_session GST_CAPS_FEATURE_MEMORY_GL_MEMORY [foreign_gl_buffer]) @ new \<and>
          accepted_methods new =
            [gl_memory_upload, raw_data_upload, egl_image_upload, upload_meta_upload,
             raw_data_upload] \<and>
          subseq (accepted_methods new)
            (call_candidates (example_session GST_CAPS_FEATURE_MEMORY_GL_MEMORY [foreign_gl_buffer])) \<and>
          length (accepted_methods new) \<le> length upload_methods + 1 \<and>
          length (filter ((=) gl_memory_upload) (accepted_methods new)) \<le> 1 \<and>
          length (filter ((=) raw_data_upload) (accepted_methods new)) = 2 \<and>
          length upload_methods < length (accepted_methods new) \<and>
          length (filter ((=) GST_GL_UPLOAD_UNSHARED_GL_CONTEXT) (performed_results new)) \<le> 1 \<and>
          GST_GL_UPLOAD_UNSHARED_GL_CONTEXT \<in> set (performed_results new)) \<and>
   reachable mapping_externals fallback_done_outcome \<and>
   gst_gl_upload_perform_with_buffer mapping_externals fallback_done_outcome 1
     = Inr (RETURN_FALSE, None, raw_twice_outcome) \<and>
   (\<exists>new. calls raw_twice_outcome = calls fallback_done_outcome @ new \<and>
          accepted_methods new =
            [raw_data_upload, egl_image_upload, upload_meta_upload, raw_data_upload] \<and>
          performed_results new = [] \<and>
          length (filter ((=) raw_data_upload) (accepted_methods new)) = 2 \<and>
          method_impl fallback_done_outcome \<noteq> None \<and>
          method_desc fallback_done_outcome = Some raw_data_upload \<and>
          method_i fallback_done_outcome < length upload_methods)"
proof -
  let ?s = "example_session GST_CAPS_FEATURE_MEMORY_GL_MEMORY [foreign_gl_buffer]"
  from fallback_attempts_bounded[OF example_session_reachable run_foreign_gl]
  obtain new where n:
    "calls foreign_gl_outcome = calls ?s @ new"
    "subseq (accepted_methods new) (call_candidates ?s)"
    "length (accepted_methods new) \<le> length upload_methods + 1"
    "\<forall>m. m \<noteq> raw_data_upload \<longrightarrow> length (filter ((=) m) (accepted_methods new)) \<le> 1"
    "length (filter ((=) GST_GL_UPLOAD_UNSHARED_GL_CONTEXT) (performed_results new)) \<le> 1"
    "length (filter ((=) raw_data_upload) (accepted_methods new)) = 2 \<longrightarrow>
       GST_GL_UPLOAD_UNSHARED_GL_CONTEXT \<in> set (performed_results new) \<or>
       (method_impl ?s \<noteq> None \<and> method_desc ?s = Some raw_data_upload \<and>
        method_i ?s < length upload_methods)"
    "length upload_methods < length (accepted_methods new) \<longrightarrow>
       GST_GL_UPLOAD_UNSHARED_GL_CONTEXT \<in> set (performed_results new)"
    by blast
  from n(1) have new: "new =
      [EvNew gl_memory_upload 4, EvAccept gl_memory_upload (Some 4) 0 True,
       EvPerform gl_memory_upload (Some 4) 0 GST_GL_UPLOAD_UNSHARED_GL_CONTEXT,
       EvFree gl_memory_upload 4, EvNew raw_data_upload 5,
       EvAccept raw_data_upload (Some 5) 0 False,
       EvFree raw_data_upload 5, EvNew egl_image_upload 6,
       EvAccept egl_image_upload (Some 6) 0 False,
       EvFree egl_image_upload 6, EvNew upload_meta_upload 7,
       EvAccept upload_meta_upload (Some 7) 0 False,
       EvFree upload_meta_upload 7, EvNew raw_data_upload 8,
       EvAccept raw_data_upload (Some 8) 0 False]"
    by (simp add: foreign_gl_outcome_def)
  have acc: "accepted_methods new =
            [gl_memory_upload, raw_data_upload, egl_image_upload, upload_meta_upload,
             raw_data_upload]"
    by (simp add: new)
  have two: "length (filter ((=) raw_data_upload) (accepted_methods new)) = 2"
    "length upload_methods < length (accepted_methods new)"
    by (simp_all add: acc upload_methods_eq)
  from n(4) have gl: "length (filter ((=) gl_memory_upload) (accepted_methods new)) \<le> 1" by simp
  from n(7) two have u: "GST_GL_UPLOAD_UNSHARED_GL_CONTEXT \<in> set (performed_results new)" by simp
  have first: "\<exists>new. calls foreign_gl_outcome = calls ?s @ new \<and>
          accepted_methods new =
            [gl_memory_upload, raw_data_upload, egl_image_upload, upload_meta_upload,
             raw_data_upload] \<and>
          subseq (accepted_methods new) (call_candidates ?s) \<and>
          length (accepted_methods new) \<le> length upload_methods + 1 \<and>
          length (filter ((=) gl_memory_upload) (accepted_methods new)) \<le> 1 \<and>
          length (filter ((=) raw_data_upload) (accepted_methods new)) = 2 \<and>
          length upload_methods < length (accepted_methods new) \<and>
          length (filter ((=) GST_GL_UPLOAD_UNSHARED_GL_CONTEXT) (performed_results new)) \<le> 1 \<and>
          GST_GL_UPLOAD_UNSHARED_GL_CONTEXT \<in> set (performed_results new)"
    using n(1,2,3,5) acc gl two u by (intro exI[of _ new]) simp
  from fallback_attempts_bounded[OF fallback_done_outcome_reachable run_raw_twice]
  obtain new2 where m:
    "calls raw_twice_outcome = calls fallback_done_outcome @ new2"
    "length (filter ((=) raw_data_upload) (accepted_methods new2)) = 2 \<longrightarrow>
       GST_GL_UPLOAD_UNSHARED_GL_CONTEXT \<in> set (performed_results new2) \<or>
       (method_impl fallback_done_outcome \<noteq> None \<and>
        method_desc fallback_done_outcome = Some raw_data_upload \<and>
        method_i fallback_done_outcome < length upload_methods)"
    by blast
  from m(1) have new2: "new2 =
      [EvAccept raw_data_upload (Some 5) 1 False,
       EvFree raw_data_upload 5, EvNew egl_image_upload 6,
       EvAccept egl_image_upload (Some 6) 1 False,
       EvFree egl_image_upload 6, EvNew upload_meta_upload 7,
       EvAccept upload_meta_upload (Some 7) 1 False,
       EvFree upload_meta_upload 7, EvNew raw_data_upload 8,
       EvAccept raw_data_upload (Some 8) 1 False]"
    by (simp add: raw_twice_outcome_def)
  have acc2: "accepted_methods new2 =
      [raw_data_upload, egl_image_upload, upload_meta_upload, raw_data_upload]"
    "performed_results new2 = []"
    by (simp_all add: new2)
  with m(2) have early: "method_impl fallback_done_outcome \<noteq> None \<and>
        method_desc fallback_done_outcome = Some raw_data_upload \<and>
        method_i fallback_done_outcome < length upload_methods"
    by simp
  have second: "\<exists>new. calls raw_twice_outcome = calls fallback_done_outcome @ new \<and>
          accepted_methods new =
            [raw_data_upload, egl_image_upload, upload_meta_upload, raw_data_upload] \<and>
          performed_results new = [] \<and>
          length (filter ((=) raw_data_upload) (accepted_methods new)) = 2 \<and>
          method_impl fallback_done_outcome \<noteq> None \<and>
          method_desc fallback_done_outcome = Some raw_data_upload \<and>
          method_i fallback_done_outcome < length upload_methods"
    using m(1) acc2 early by (intro exI[of _ new2]) simp
  from example_session_reachable run_foreign_gl first fallback_done_outcome_reachable
    run_raw_twice second
  show ?thesis by blast
qed

text \<open>The claim as the specification words it fails for a GL buffer of a context that
  cannot share and cannot be mapped: five strategies are asked, one more than the table
  has entries, and the raw-data method is asked again after it has rejected the
  buffer.\<close>

theorem raw_data_asked_twice_counterexample:
  "gst_gl_upload_perform_with_buffer example_externals
      (example_session GST_CAPS_FEATURE_MEMORY_GL_MEMORY [foreign_gl_buffer]) 0
     = Inr (RETURN_FALSE, None, foreign_gl_outcome) \<and>
   accepted_methods (calls (example_session GST_CAPS_FEATURE_MEMORY_GL_MEMORY [foreign_gl_buffer])) = [] \<and>
   accepted_methods (calls foreign_gl_outcome) =
     [gl_memory_upload, raw_data_upload, egl_image_upload, upload_meta_upload, raw_data_upload] \<and>
   length upload_methods = 4"
  using run_foreign_gl
  by (simp add: foreign_gl_outcome_def example_session_def upload_methods_eq)


text \<open>
  C7. When gst_gl_upload_perform_with_buffer returns GST_GL_UPLOAD_DONE with an out buffer
  at another address than the input buffer, the out buffer is the buffer the loop left
  there with its flags and its five timestamp fields replaced by those of the input
  buffer: its memories and its upload meta are what the strategy produced, and the
  input buffer is as it was. When the out buffer is the input buffer itself, the state
  is the one the loop left: nothing is copied.
\<close>

theorem done_copies_flags_and_timestamps:
  assumes "gst_gl_upload_perform_with_buffer E s b = Inr (GST_GL_UPLOAD_DONE, ob, s')"
  shows "\<exists>out s0 s1.
           ob = Some out \<and> find_first_method s = Inr s0 \<and>
           upload_restart E s0 b = Inr (GST_GL_UPLOAD_DONE, Some out, s1) \<and>
           b < length (buffers s1) \<and> out < length (buffers s1) \<and>
           buffers s1 ! b = buffers s ! b \<and>
           (out \<noteq> b \<longrightarrow>
              s' = s1\<lparr>buffers := (buffers s1)
                      [out := (buffers s1 ! out)
                         \<lparr>flags := flags (buffers s ! b), pts := pts (buffers s ! b),
                          dts := dts (buffers s ! b), duration := duration (buffers s ! b),
                          offset := offset (buffers s ! b),
                          offset_end := offset_end (buffers s ! b)\<rparr>]\<rparr> \<and>
              memories (buffers s' ! out) = memories (buffers s1 ! out) \<and>
              upload_meta (buffers s' ! out) = upload_meta (buffers s1 ! out) \<and>
              buffers s' ! b = buffers s ! b) \<and>
           (out = b \<longrightarrow> s' = s1)"
  using assms
proof (cases rule: perform_with_buffer_cases)
  case no_buffer
  then show ?thesis by simp
next
  case (ran s0 ob1 s1)
  from ran(5) obtain out where out: "ob1 = Some out" "ob = Some out" "s' = copy_metadata b out s1"
    by auto
  from find_first_method_effect[OF ran(2)] have b0: "buffers s0 = buffers s" by simp
  from upload_restart_result[OF ran(3)] b0 ran(1) out(1) obtain extra where
    e: "buffers s1 = buffers s @ extra" and o: "out < length (buffers s1)"
    by auto
  from e ran(1) have bb: "b < length (buffers s1)" "buffers s1 ! b = buffers s ! b"
    by (simp_all add: nth_append)
  show ?thesis
    by (rule exI[of _ out], rule exI[of _ s0], rule exI[of _ s1])
       (use out ran(2,3) o bb in \<open>simp add: copy_metadata_def gst_buffer_copy_into_def\<close>)
qed

theorem done_copies_flags_and_timestamps_witness:
  "gst_gl_upload_perform_with_buffer example_externals
      (example_session GST_CAPS_FEATURE_META_GST_VIDEO_GL_TEXTURE_UPLOAD_META
         [meta_buffer True [GstSystemMemory, GstSystemMemory]]) 0
     = Inr (GST_GL_UPLOAD_DONE, Some 1, meta_done_outcome) \<and>
   (\<exists>s0 s1. upload_restart example_externals s0 0 = Inr (GST_GL_UPLOAD_DONE, Some 1, s1) \<and>
      memories (buffers meta_done_outcome ! 1) = memories (buffers s1 ! 1) \<and>
      upload_meta (buffers meta_done_outcome ! 1) = upload_meta (buffers s1 ! 1)) \<and>
   flags (buffers meta_done_outcome ! 1) = 5 \<and> pts (buffers meta_done_outcome ! 1) = 100 \<and>
   flags (meta_buffer True [GstSystemMemory, GstSystemMemory]) = 5 \<and>
   pts (meta_buffer True [GstSystemMemory, GstSystemMemory]) = 100 \<and>
   gst_gl_upload_perform_with_buffer example_externals
      (example_session GST_CAPS_FEATURE_MEMORY_GL_MEMORY [own_gl_buffer]) 0
     = Inr (GST_GL_UPLOAD_DONE, Some 0, passthrough_outcome) \<and>
   (\<exists>s0. upload_restart example_externals s0 0 = Inr (GST_GL_UPLOAD_DONE, Some 0, passthrough_outcome))"
proof -
  from done_copies_flags_and_timestamps[OF run_meta_two_memories] obtain s0 s1 where
    a: "upload_restart example_externals s0 0 = Inr (GST_GL_UPLOAD_DONE, Some 1, s1)"
       "memories (buffers meta_done_outcome ! 1) = memories (buffers s1 ! 1)"
       "upload_meta (buffers meta_done_outcome ! 1) = upload_meta (buffers s1 ! 1)"
    by auto
  from done_copies_flags_and_timestamps[OF run_own_gl] obtain s2 where
    b: "upload_restart example_externals s2 0 = Inr (GST_GL_UPLOAD_DONE, Some 0, passthrough_outcome)"
    by auto
  have c: "flags (buffers meta_done_outcome ! 1) = 5" "pts (buffers meta_done_outcome ! 1) = 100"
    "flags (meta_buffer True [GstSystemMemory, GstSystemMemory]) = 5"
    "pts (meta_buffer True [GstSystemMemory, GstSystemMemory]) = 100"
    by (simp_all add: meta_done_outcome_def example_session_def meta_buffer_def)
  from a b c run_meta_two_memories run_own_gl show ?thesis by blast
qed


lemma NEXT_METHOD_exhausted:
  "length upload_methods \<le> method_i s \<Longrightarrow> NEXT_METHOD s = Inr (Leave RETURN_FALSE None s)"
  by (simp add: NEXT_METHOD_def upload_find_method_def)

lemma exhausted_pass:
  assumes inv: "session_inv s" and ex: "length upload_methods \<le> method_i s"
    and pass: "restart_pass E s b = Inr r"
  shows "\<exists>p a ob' s'. method_impl s = Some p \<and> method_desc s = Some raw_data_upload \<and>
           r = Leave (if a then GST_GL_UPLOAD_DONE else RETURN_FALSE) ob' s' \<and>
           calls s' = calls s @
             (if a then [EvAccept raw_data_upload (Some p) b True,
                         EvPerform raw_data_upload (Some p) b GST_GL_UPLOAD_DONE]
              else [EvAccept raw_data_upload (Some p) b False]) \<and>
           method_i s' = method_i s"
  using pass
proof (cases rule: restart_pass_cases)
  case (rejected m sa)
  from exhausted_method_is_raw[OF inv ex rejected(1)] obtain p where
    m: "m = raw_data_upload" and p: "method_impl s = Some p" by auto
  note ka = method_accept_keeps[OF rejected(2)]
  have "NEXT_METHOD (record_call (EvAccept m (method_impl s) b False) sa) =
          Inr (Leave RETURN_FALSE None (record_call (EvAccept m (method_impl s) b False) sa))"
    using ex ka by (intro NEXT_METHOD_exhausted) simp
  with rejected(3) have "r = Leave RETURN_FALSE None (record_call (EvAccept m (method_impl s) b False) sa)"
    by simp
  with m p rejected(1) ka show ?thesis
    by (intro exI[of _ p] exI[of _ False]) auto
next
  case (unshared m sa outbuf sp)
  from exhausted_method_is_raw[OF inv ex unshared(1)] unshared_only_gl_memory[OF unshared(3)]
  show ?thesis by simp
next
  case (finished m sa outbuf sp)
  from exhausted_method_is_raw[OF inv ex finished(1)] obtain p where
    m: "m = raw_data_upload" and p: "method_impl s = Some p" by auto
  note ka = method_accept_keeps[OF finished(2)] and kp = method_perform_keeps[OF finished(3)]
  from m p finished(1,4) ka kp show ?thesis
    by (intro exI[of _ p] exI[of _ True]) auto
next
  case (failed m sa ret outbuf sp)
  from exhausted_method_is_raw[OF inv ex failed(1)] have "m = raw_data_upload" by simp
  with raw_perform_done failed(3,5) show ?thesis by blast
qed

lemma perform_with_buffer_returns:
  assumes "gst_gl_upload_perform_with_buffer E s b = Inr (ret, ob, s')"
  shows "(ret = GST_GL_UPLOAD_DONE \<or> ret = RETURN_FALSE) \<and>
         (ret = RETURN_FALSE \<longrightarrow>
            ob = None \<and> (b < length (buffers s) \<longrightarrow> length upload_methods \<le> method_i s'))"
  using assms
proof (cases rule: perform_with_buffer_cases)
  case no_buffer
  then show ?thesis by simp
next
  case (ran s0 ob1 s1)
  from upload_restart_result[OF ran(3)] ran(4,5) show ?thesis
    by (cases "ret = GST_GL_UPLOAD_DONE") auto
qed

text \<open>The perform function of the raw-data method, the last entry of the table, is never
  recorded with an answer other than GST_GL_UPLOAD_DONE.\<close>

lemma unshared_fallback_calls:
  "calls (unshared_fallback s) =
     calls s @ (case method_desc s of None \<Rightarrow> [] | Some m \<Rightarrow> frees m (method_impl s)) @
     [EvNew raw_data_upload (next_impl s)]"
  by (simp add: unshared_fallback_def method_new_def method_free_def frees_def Let_def
        split: option.splits)

lemma NEXT_METHOD_calls:
  assumes "NEXT_METHOD s = Inr r" "r = Restart s1 \<or> (\<exists>ret ob. r = Leave ret ob s1)"
  shows "\<exists>tl. calls s1 = calls s @ tl \<and> performed_results tl = []"
  using assms(2)
proof
  assume "r = Restart s1"
  with assms(1) have "NEXT_METHOD s = Inr (Restart s1)" by simp
  from NEXT_METHOD_Restart_effect[OF this]
  have "calls s1 = calls s @
            (case method_impl s of None \<Rightarrow> []
             | Some p \<Rightarrow> (case method_desc s of None \<Rightarrow> [] | Some m \<Rightarrow> [EvFree m p])) @
            [EvNew (upload_methods ! method_i s) (next_impl s)]" by simp
  then show ?thesis by (auto split: option.splits)
next
  assume "\<exists>ret ob. r = Leave ret ob s1"
  then obtain ret' ob' where "r = Leave ret' ob' s1" by blast
  with assms(1) have "NEXT_METHOD s = Inr (Leave ret' ob' s1)" by simp
  from NEXT_METHOD_Leave[OF this] show ?thesis by simp
qed

lemma performed_results_raw:
  "performed_results es = [] \<Longrightarrow> EvPerform m p b r \<notin> set es"
  by (induction es rule: performed_results.induct) auto

lemma restart_pass_raw_performs:
  assumes "restart_pass E s b = Inr r" "r = Restart s1 \<or> (\<exists>ret ob. r = Leave ret ob s1)"
    and "calls s1 = calls s @ new"
  shows "\<forall>p b' r'. EvPerform raw_data_upload p b' r' \<in> set new \<longrightarrow> r' = GST_GL_UPLOAD_DONE"
  using assms(1)
proof (cases rule: restart_pass_cases)
  case (rejected m sa)
  from method_accept_keeps[OF rejected(2)] have cs: "calls sa = calls s" by simp
  from NEXT_METHOD_calls[OF rejected(3) assms(2)] obtain tl where
    "calls s1 = calls (record_call (EvAccept m (method_impl s) b False) sa) @ tl"
    and tl: "performed_results tl = []" by blast
  with cs assms(3) have "new = EvAccept m (method_impl s) b False # tl" by simp
  with performed_results_raw[OF tl] show ?thesis by simp
next
  case (unshared m sa outbuf sp)
  from method_accept_keeps[OF unshared(2)] have cs: "calls sa = calls s" by simp
  from method_perform_keeps[OF unshared(3)]
  have cp: "calls sp = calls sa @ [EvAccept m (method_impl s) b True]" by simp
  from unshared_only_gl_memory[OF unshared(3)] have m: "m = gl_memory_upload" by simp
  from unshared(4) assms(2) have "s1 = unshared_fallback
             (record_call (EvPerform m (method_impl s) b GST_GL_UPLOAD_UNSHARED_GL_CONTEXT) sp)"
    by auto
  then have "\<exists>tl. calls s1 = calls sp @
      [EvPerform m (method_impl s) b GST_GL_UPLOAD_UNSHARED_GL_CONTEXT] @ tl \<and>
      performed_results tl = []"
    by (simp add: unshared_fallback_calls split: option.splits)
  then obtain tl where "calls s1 = calls sp @
      [EvPerform m (method_impl s) b GST_GL_UPLOAD_UNSHARED_GL_CONTEXT] @ tl"
    and tl: "performed_results tl = []" by blast
  with cs cp assms(3) have "new = [EvAccept m (method_impl s) b True,
      EvPerform m (method_impl s) b GST_GL_UPLOAD_UNSHARED_GL_CONTEXT] @ tl" by simp
  with performed_results_raw[OF tl] m show ?thesis by simp
next
  case (finished m sa outbuf sp)
  from method_accept_keeps[OF finished(2)] have cs: "calls sa = calls s" by simp
  from method_perform_keeps[OF finished(3)]
  have cp: "calls sp = calls sa @ [EvAccept m (method_impl s) b True]" by simp
  from finished(4) assms(2) have "s1 = record_call (EvPerform m (method_impl s) b GST_GL_UPLOAD_DONE) sp"
    by auto
  with cs cp assms(3) have "new = [EvAccept m (method_impl s) b True,
      EvPerform m (method_impl s) b GST_GL_UPLOAD_DONE]" by simp
  then show ?thesis by simp
next
  case (failed m sa ret outbuf sp)
  from method_accept_keeps[OF failed(2)] have cs: "calls sa = calls s" by simp
  from method_perform_keeps[OF failed(3)]
  have cp: "calls sp = calls sa @ [EvAccept m (method_impl s) b True]" by simp
  from raw_perform_done failed(3,5) have m: "m \<noteq> raw_data_upload" by blast
  let ?s3 = "(method_free m (method_impl s)
                      (record_call (EvPerform m (method_impl s) b ret) sp))\<lparr>method_impl := None\<rparr>"
  have c3: "calls ?s3 = calls s @ [EvAccept m (method_impl s) b True,
                 EvPerform m (method_impl s) b ret] @ frees m (method_impl s)"
    using cs cp by (simp add: method_free_def frees_def split: option.splits)
  from NEXT_METHOD_calls[OF failed(6) assms(2)] obtain tl where
    "calls s1 = calls ?s3 @ tl" and tl: "performed_results tl = []" by blast
  with c3 assms(3) have "new = [EvAccept m (method_impl s) b True,
                 EvPerform m (method_impl s) b ret] @ frees m (method_impl s) @ tl" by simp
  moreover have "EvPerform raw_data_upload p b' r' \<notin> set (frees m (method_impl s))"
    for p b' r'
    by (rule performed_results_raw) simp
  ultimately show ?thesis using performed_results_raw[OF tl] m by simp
qed

lemma restart_pass_Restart_calls:
  assumes "restart_pass E s b = Inr (Restart s1)"
  shows "\<exists>pre. calls s1 = calls s @ pre"
  using assms by (cases rule: restart_pass_Restart_cases) simp_all

lemma upload_restart_raw_performs:
  assumes "upload_restart E s b = Inr (ret, ob, s')" and "calls s' = calls s @ new"
  shows "\<forall>p b' r'. EvPerform raw_data_upload p b' r' \<in> set new \<longrightarrow> r' = GST_GL_UPLOAD_DONE"
  using assms
proof (induction arbitrary: new rule: upload_restart_induct)
  case (leave s)
  show ?case by (rule restart_pass_raw_performs[OF leave(1) _ leave(2)]) blast
next
  case (again s s1)
  from restart_pass_Restart_calls[OF again(1)] obtain pre where pre: "calls s1 = calls s @ pre"
    by blast
  from upload_restart_calls[OF again(2)] obtain new1 where n1: "calls s' = calls s1 @ new1"
    by blast
  from pre n1 again(4) have new: "new = pre @ new1" by simp
  have "\<forall>p b' r'. EvPerform raw_data_upload p b' r' \<in> set pre \<longrightarrow> r' = GST_GL_UPLOAD_DONE"
    by (rule restart_pass_raw_performs[OF again(1) _ pre]) simp
  with again(3)[OF n1] new show ?case by (simp add: all_conj_distrib)
qed

text \<open>A call ends with the raw-data method rejecting the buffer or with a perform
  function answering GST_GL_UPLOAD_DONE.\<close>

lemma upload_restart_last_call:
  assumes "upload_restart E s b = Inr (ret, ob, s')" and "session_inv s"
    and "calls s' = calls s @ new"
  shows "(ret = RETURN_FALSE \<longrightarrow>
            (\<exists>pre p. new = pre @ [EvAccept raw_data_upload p b False]) \<and>
            method_i s' = length upload_methods) \<and>
         (ret = GST_GL_UPLOAD_DONE \<longrightarrow>
            (\<exists>pre m p. new = pre @ [EvPerform m p b GST_GL_UPLOAD_DONE]))"
  using assms
proof (induction arbitrary: new rule: upload_restart_induct)
  case (leave s)
  show ?case
  proof (cases "length upload_methods \<le> method_i s")
    case True
    from exhausted_pass[OF leave(2) True leave(1)] obtain p a where
      e: "ret = (if a then GST_GL_UPLOAD_DONE else RETURN_FALSE)"
         "calls s' = calls s @
             (if a then [EvAccept raw_data_upload (Some p) b True,
                         EvPerform raw_data_upload (Some p) b GST_GL_UPLOAD_DONE]
              else [EvAccept raw_data_upload (Some p) b False])"
         "method_i s' = method_i s"
      by auto
    from session_invD(7)[OF leave(2)] True e(3) have i: "method_i s' = length upload_methods"
      by simp
    show ?thesis
    proof (cases a)
      case True
      with e leave(3) have "new = [EvAccept raw_data_upload (Some p) b True] @
                         [EvPerform raw_data_upload (Some p) b GST_GL_UPLOAD_DONE]" by simp
      then have "\<exists>pre m p. new = pre @ [EvPerform m p b GST_GL_UPLOAD_DONE]"
        by (intro exI)
      moreover from True e(1) have "ret = GST_GL_UPLOAD_DONE" by simp
      ultimately show ?thesis by simp
    next
      case False
      with e leave(3) have "new = [] @ [EvAccept raw_data_upload (Some p) b False]" by simp
      then have "\<exists>pre p. new = pre @ [EvAccept raw_data_upload p b False]"
        by (intro exI)
      moreover from False e(1) have "ret = RETURN_FALSE" by simp
      ultimately show ?thesis using i by simp
    qed
  next
    case False
    from leave(1) show ?thesis
    proof (cases rule: restart_pass_Leave_cases)
      case (rejected m)
      with False show ?thesis by simp
    next
      case (finished m)
      with leave(3) have "new = [EvAccept m (method_impl s) b True] @
                    [EvPerform m (method_impl s) b GST_GL_UPLOAD_DONE]" by simp
      then have "\<exists>pre m p. new = pre @ [EvPerform m p b GST_GL_UPLOAD_DONE]"
        by (intro exI)
      with finished(2) show ?thesis by simp
    next
      case (failed m r)
      with False show ?thesis by simp
    qed
  qed
next
  case (again s s1)
  from restart_pass_Restart_calls[OF again(1)] obtain pre where pre: "calls s1 = calls s @ pre"
    by blast
  from upload_restart_calls[OF again(2)] obtain new1 where n1: "calls s' = calls s1 @ new1"
    by blast
  from pre n1 again(5) have new: "new = pre @ new1" by simp
  note ih = again(3)[OF restart_pass_Restart_inv[OF again(4) again(1)] n1]
  show ?case
  proof (intro conjI impI)
    assume "ret = RETURN_FALSE"
    with ih obtain pre1 p where "new1 = pre1 @ [EvAccept raw_data_upload p b False]"
      and i: "method_i s' = length upload_methods" by blast
    with new have "new = (pre @ pre1) @ [EvAccept raw_data_upload p b False]" by simp
    then show "\<exists>pre p. new = pre @ [EvAccept raw_data_upload p b False]" by (intro exI)
    from i show "method_i s' = length upload_methods" .
  next
    assume "ret = GST_GL_UPLOAD_DONE"
    with ih obtain pre1 m p where "new1 = pre1 @ [EvPerform m p b GST_GL_UPLOAD_DONE]" by blast
    with new have "new = (pre @ pre1) @ [EvPerform m p b GST_GL_UPLOAD_DONE]" by simp
    then show "\<exists>pre m p. new = pre @ [EvPerform m p b GST_GL_UPLOAD_DONE]" by (intro exI)
  qed
qed

text \<open>
  C3, as the code has it. gst_gl_upload_perform_with_buffer returns GST_GL_UPLOAD_DONE or
  FALSE and nothing else, and with FALSE it gives no out buffer. Among the calls it
  records, every perform of the raw-data method, the last entry of upload_methods,
  answers GST_GL_UPLOAD_DONE. On a session and a valid buffer the call returns FALSE
  exactly when its last recorded call is the raw-data method rejecting the buffer, with
  method_i then at the end of the table, and GST_GL_UPLOAD_DONE exactly when its last
  recorded call is a perform answering GST_GL_UPLOAD_DONE: a perform that answers
  GST_GL_UPLOAD_ERROR never ends a call.
\<close>

theorem upload_failure_is_one_value:
  assumes "gst_gl_upload_perform_with_buffer E s b = Inr (ret, ob, s')"
  shows "(ret = GST_GL_UPLOAD_DONE \<or> ret = RETURN_FALSE) \<and>
         (ret = RETURN_FALSE \<longrightarrow>
            ob = None \<and> (b < length (buffers s) \<longrightarrow> length upload_methods \<le> method_i s')) \<and>
         (\<exists>new. calls s' = calls s @ new \<and>
            (\<forall>p b' r. EvPerform raw_data_upload p b' r \<in> set new \<longrightarrow> r = GST_GL_UPLOAD_DONE) \<and>
            (reachable E s \<and> b < length (buffers s) \<longrightarrow>
               (ret = RETURN_FALSE \<longleftrightarrow>
                  (\<exists>pre p. new = pre @ [EvAccept raw_data_upload p b False])) \<and>
               (ret = GST_GL_UPLOAD_DONE \<longleftrightarrow>
                  (\<exists>pre m p. new = pre @ [EvPerform m p b GST_GL_UPLOAD_DONE])) \<and>
               (ret = RETURN_FALSE \<longrightarrow> method_i s' = length upload_methods)))"
proof -
  note r = perform_with_buffer_returns[OF assms]
  have "\<exists>new. calls s' = calls s @ new \<and>
            (\<forall>p b' r. EvPerform raw_data_upload p b' r \<in> set new \<longrightarrow> r = GST_GL_UPLOAD_DONE) \<and>
            (reachable E s \<and> b < length (buffers s) \<longrightarrow>
               (ret = RETURN_FALSE \<longleftrightarrow>
                  (\<exists>pre p. new = pre @ [EvAccept raw_data_upload p b False])) \<and>
               (ret = GST_GL_UPLOAD_DONE \<longleftrightarrow>
                  (\<exists>pre m p. new = pre @ [EvPerform m p b GST_GL_UPLOAD_DONE])) \<and>
               (ret = RETURN_FALSE \<longrightarrow> method_i s' = length upload_methods))"
    using assms
  proof (cases rule: perform_with_buffer_cases)
    case no_buffer
    then show ?thesis by simp
  next
    case (ran s0 ob1 s1)
    from find_first_method_effect[OF ran(2)] obtain pre where
      pre: "calls s0 = calls s @ pre" "pre = [] \<or> (\<exists>m q. pre = [EvNew m q])" by blast
    from upload_restart_calls[OF ran(3)] obtain new1 where n1: "calls s1 = calls s0 @ new1"
      by blast
    have c: "calls s' = calls s1" using ran(4,5) by (cases "ret = GST_GL_UPLOAD_DONE") auto
    note rp = upload_restart_raw_performs[OF ran(3) n1]
    from pre(2) have "\<forall>p b' r. EvPerform raw_data_upload p b' r \<notin> set pre" by auto
    with rp have raw: "\<forall>p b' r. EvPerform raw_data_upload p b' r \<in> set (pre @ new1) \<longrightarrow>
                 r = GST_GL_UPLOAD_DONE"
      by simp
    have last: "(ret = RETURN_FALSE \<longleftrightarrow>
                  (\<exists>pre' p. pre @ new1 = pre' @ [EvAccept raw_data_upload p b False])) \<and>
               (ret = GST_GL_UPLOAD_DONE \<longleftrightarrow>
                  (\<exists>pre' m p. pre @ new1 = pre' @ [EvPerform m p b GST_GL_UPLOAD_DONE])) \<and>
               (ret = RETURN_FALSE \<longrightarrow> method_i s' = length upload_methods)"
      if rs: "reachable E s"
    proof -
      from find_first_method_inv[OF ran(2) reachable_inv[OF rs]] have inv0: "session_inv s0"
        by simp
      note lc = upload_restart_last_call[OF ran(3) inv0 n1]
      have i: "method_i s' = method_i s1"
        using ran(4,5) by (cases "ret = GST_GL_UPLOAD_DONE") auto
      show ?thesis
      proof (cases "ret = GST_GL_UPLOAD_DONE")
        case True
        with lc obtain pre1 m p where l: "new1 = pre1 @ [EvPerform m p b GST_GL_UPLOAD_DONE]"
          by blast
        then have "pre @ new1 = (pre @ pre1) @ [EvPerform m p b GST_GL_UPLOAD_DONE]" by simp
        then have p1: "\<exists>pre' m p. pre @ new1 = pre' @ [EvPerform m p b GST_GL_UPLOAD_DONE]"
          by (intro exI)
        from l have p2: "\<not> (\<exists>pre' p. pre @ new1 = pre' @ [EvAccept raw_data_upload p b False])"
          by simp
        from True p1 p2 show ?thesis by simp
      next
        case False
        with r have f: "ret = RETURN_FALSE" by simp
        with lc obtain pre1 p where l: "new1 = pre1 @ [EvAccept raw_data_upload p b False]"
          and i1: "method_i s1 = length upload_methods" by blast
        then have "pre @ new1 = (pre @ pre1) @ [EvAccept raw_data_upload p b False]" by simp
        then have p1: "\<exists>pre' p. pre @ new1 = pre' @ [EvAccept raw_data_upload p b False]"
          by (intro exI)
        from l have p2: "\<not> (\<exists>pre' m p. pre @ new1 = pre' @ [EvPerform m p b GST_GL_UPLOAD_DONE])"
          by simp
        from f p1 p2 i i1 show ?thesis by simp
      qed
    qed
    have "calls s' = calls s @ (pre @ new1)" using c n1 pre(1) by simp
    with raw last show ?thesis by (intro exI[of _ "pre @ new1"] conjI impI) simp_all
  qed
  with r show ?thesis by (intro conjI) simp_all
qed

theorem upload_failure_is_one_value_witness:
  "reachable example_externals
      (example_session GST_CAPS_FEATURE_META_GST_VIDEO_GL_TEXTURE_UPLOAD_META
         [meta_buffer False []]) \<and>
   0 < length (buffers (example_session GST_CAPS_FEATURE_META_GST_VIDEO_GL_TEXTURE_UPLOAD_META
         [meta_buffer False []])) \<and>
   gst_gl_upload_perform_with_buffer example_externals
      (example_session GST_CAPS_FEATURE_META_GST_VIDEO_GL_TEXTURE_UPLOAD_META
         [meta_buffer False []]) 0
     = Inr (RETURN_FALSE, None, meta_failed_outcome) \<and>
   length upload_methods \<le> method_i meta_failed_outcome \<and>
   (\<exists>new. calls meta_failed_outcome =
            calls (example_session GST_CAPS_FEATURE_META_GST_VIDEO_GL_TEXTURE_UPLOAD_META
                     [meta_buffer False []]) @ new \<and>
          performed_results new = [GST_GL_UPLOAD_ERROR] \<and>
          (\<exists>pre p. new = pre @ [EvAccept raw_data_upload p 0 False])) \<and>
   method_i meta_failed_outcome = length upload_methods \<and>
   reachable example_externals
      (example_session GST_CAPS_FEATURE_MEMORY_SYSTEM_MEMORY [two_memory_buffer]) \<and>
   gst_gl_upload_perform_with_buffer example_externals
      (example_session GST_CAPS_FEATURE_MEMORY_SYSTEM_MEMORY [two_memory_buffer]) 0
     = Inr (GST_GL_UPLOAD_DONE, Some 1, raw_done_outcome) \<and>
   (\<exists>new. calls raw_done_outcome =
            calls (example_session GST_CAPS_FEATURE_MEMORY_SYSTEM_MEMORY [two_memory_buffer]) @ new \<and>
          EvPerform raw_data_upload (Some 7) 0 GST_GL_UPLOAD_DONE \<in> set new \<and>
          (\<exists>pre m p. new = pre @ [EvPerform m p 0 GST_GL_UPLOAD_DONE]))"
proof -
  let ?s = "example_session GST_CAPS_FEATURE_META_GST_VIDEO_GL_TEXTURE_UPLOAD_META
              [meta_buffer False []]"
  let ?t = "example_session GST_CAPS_FEATURE_MEMORY_SYSTEM_MEMORY [two_memory_buffer]"
  have b: "0 < length (buffers ?s)" "0 < length (buffers ?t)"
    by (simp_all add: example_session_def)
  note t1 = upload_failure_is_one_value[OF run_meta_fails]
  from t1 b have i: "length upload_methods \<le> method_i meta_failed_outcome" by simp
  from t1 obtain new where n:
    "calls meta_failed_outcome = calls ?s @ new"
    "reachable example_externals ?s \<and> 0 < length (buffers ?s) \<longrightarrow>
       (RETURN_FALSE = RETURN_FALSE \<longleftrightarrow>
          (\<exists>pre p. new = pre @ [EvAccept raw_data_upload p 0 False])) \<and>
       (RETURN_FALSE = GST_GL_UPLOAD_DONE \<longleftrightarrow>
          (\<exists>pre m p. new = pre @ [EvPerform m p 0 GST_GL_UPLOAD_DONE])) \<and>
       (RETURN_FALSE = RETURN_FALSE \<longrightarrow> method_i meta_failed_outcome = length upload_methods)"
    by blast
  from n(2) example_session_reachable b(1)
  have l: "\<exists>pre p. new = pre @ [EvAccept raw_data_upload p 0 False]"
    and i4: "method_i meta_failed_outcome = length upload_methods" by simp_all
  from n(1) have "performed_results new = [GST_GL_UPLOAD_ERROR]"
    by (auto simp: meta_failed_outcome_def example_session_def)
  with n(1) l have first: "\<exists>new. calls meta_failed_outcome = calls ?s @ new \<and>
          performed_results new = [GST_GL_UPLOAD_ERROR] \<and>
          (\<exists>pre p. new = pre @ [EvAccept raw_data_upload p 0 False])"
    by (intro exI[of _ new]) simp
  note t2 = upload_failure_is_one_value[OF run_raw_two_memories]
  from t2 obtain new2 where m:
    "calls raw_done_outcome = calls ?t @ new2"
    "reachable example_externals ?t \<and> 0 < length (buffers ?t) \<longrightarrow>
       (GST_GL_UPLOAD_DONE = RETURN_FALSE \<longleftrightarrow>
          (\<exists>pre p. new2 = pre @ [EvAccept raw_data_upload p 0 False])) \<and>
       (GST_GL_UPLOAD_DONE = GST_GL_UPLOAD_DONE \<longleftrightarrow>
          (\<exists>pre m p. new2 = pre @ [EvPerform m p 0 GST_GL_UPLOAD_DONE])) \<and>
       (GST_GL_UPLOAD_DONE = RETURN_FALSE \<longrightarrow> method_i raw_done_outcome = length upload_methods)"
    by blast
  from m(2) example_session_reachable b(2)
  have l2: "\<exists>pre m p. new2 = pre @ [EvPerform m p 0 GST_GL_UPLOAD_DONE]" by simp
  from m(1) have "EvPerform raw_data_upload (Some 7) 0 GST_GL_UPLOAD_DONE \<in> set new2"
    by (auto simp: raw_done_outcome_def example_session_def)
  with m(1) l2 have second: "\<exists>new. calls raw_done_outcome = calls ?t @ new \<and>
          EvPerform raw_data_upload (Some 7) 0 GST_GL_UPLOAD_DONE \<in> set new \<and>
          (\<exists>pre m p. new = pre @ [EvPerform m p 0 GST_GL_UPLOAD_DONE])"
    by (intro exI[of _ new2]) simp
  from example_session_reachable[of GST_CAPS_FEATURE_META_GST_VIDEO_GL_TEXTURE_UPLOAD_META
         "[meta_buffer False []]"]
    example_session_reachable[of GST_CAPS_FEATURE_MEMORY_SYSTEM_MEMORY "[two_memory_buffer]"]
    b(1) run_meta_fails i first i4 run_raw_two_memories second
  show ?thesis by (intro conjI)
qed

text \<open>No call returns a second failure value: a call in which every strategy rejects
  returns FALSE, and no call at all returns GST_GL_UPLOAD_ERROR or any other value than
  GST_GL_UPLOAD_DONE and FALSE; nor can the perform function of the raw-data method,
  the last entry of the table, answer GST_GL_UPLOAD_ERROR.\<close>

theorem no_second_failure_value_counterexample:
  "gst_gl_upload_perform_with_buffer example_externals
      (example_session GST_CAPS_FEATURE_MEMORY_SYSTEM_MEMORY [empty_buffer, system_buffer]) 0
     = Inr (RETURN_FALSE, None, exhausted_session) \<and>
   accepted_methods (calls exhausted_session) =
     [gl_memory_upload, egl_image_upload, upload_meta_upload, raw_data_upload] \<and>
   performed_results (calls exhausted_session) = [] \<and>
   (\<forall>E s b ob s'.
      gst_gl_upload_perform_with_buffer E s b \<noteq> Inr (GST_GL_UPLOAD_ERROR, ob, s') \<and>
      gst_gl_upload_perform_with_buffer E s b \<noteq> Inr (GST_GL_UPLOAD_UNSUPPORTED, ob, s') \<and>
      gst_gl_upload_perform_with_buffer E s b \<noteq> Inr (GST_GL_UPLOAD_UNSHARED_GL_CONTEXT, ob, s')) \<and>
   (\<forall>E s impl b ob s'.
      raw_data_upload_perform E s impl b \<noteq> Inr (GST_GL_UPLOAD_ERROR, ob, s'))"
proof -
  have one: "gst_gl_upload_perform_with_buffer E s b \<noteq> Inr (r, ob, s')"
    if "r \<noteq> GST_GL_UPLOAD_DONE" "r \<noteq> RETURN_FALSE" for E s b r ob s'
    using perform_with_buffer_returns[of E s b r ob s'] that by blast
  have raw: "raw_data_upload_perform E s impl b \<noteq> Inr (GST_GL_UPLOAD_ERROR, ob, s')"
    for E s impl b ob s'
    using raw_perform_done[of E s impl b GST_GL_UPLOAD_ERROR ob s']
    by (auto simp: method_perform_def)
  from run_all_reject one raw show ?thesis
    by (simp add: exhausted_session_def example_session_def)
qed


lemma set_caps_cases:
  assumes "gst_gl_upload_set_caps E s new_in new_out = Inr (r, s')"
  obtains
    (unfixed) "\<not> gst_caps_is_fixed new_in" "r = False" "s' = s"
  | (same) ic oc where "gst_caps_is_fixed new_in" "in_caps s = Some ic" "out_caps s = Some oc"
      "gst_caps_is_equal ic new_in" "gst_caps_is_equal oc new_out" "r = True" "s' = s"
  | (changed) "gst_caps_is_fixed new_in"
      "\<not> (\<exists>ic oc. in_caps s = Some ic \<and> out_caps s = Some oc \<and>
            gst_caps_is_equal ic new_in \<and> gst_caps_is_equal oc new_out)"
      "r = True" "in_caps s' = Some new_in" "out_caps s' = Some new_out"
      "method_impl s' = None" "method_i s' = 0"
      "calls s' = calls s @ (case method_desc s of None \<Rightarrow> [] | Some m \<Rightarrow> frees m (method_impl s))"
      "live s' = filter (\<lambda>e. Some (fst e) \<noteq> method_impl s) (live s)"
      "buffers s' = buffers s" "upload_impl s' = upload_impl s"
      "in_info s' = set_info (gst_video_info_from_caps E new_in) (in_info s)"
      "out_info s' = set_info (gst_video_info_from_caps E new_out) (out_info s)"
proof (cases "gst_caps_is_fixed new_in")
  case False
  with assms show ?thesis
    by (intro unfixed) (simp_all add: gst_gl_upload_set_caps_def gst_gl_upload_set_caps_unlocked_def)
next
  case True
  show ?thesis
  proof (cases "\<exists>ic oc. in_caps s = Some ic \<and> out_caps s = Some oc \<and>
            gst_caps_is_equal ic new_in \<and> gst_caps_is_equal oc new_out")
    case e: True
    then obtain ic oc where "in_caps s = Some ic" "out_caps s = Some oc"
      "gst_caps_is_equal ic new_in" "gst_caps_is_equal oc new_out" by blast
    with assms True show ?thesis
      by (intro same[of ic oc])
         (simp_all add: gst_gl_upload_set_caps_def gst_gl_upload_set_caps_unlocked_def)
  next
    case ne: False
    then have c: "\<not> (case (in_caps s, out_caps s) of
                 (Some ic, Some oc) \<Rightarrow> gst_caps_is_equal ic new_in \<and> gst_caps_is_equal oc new_out
               | _ \<Rightarrow> False)"
      by (auto split: option.splits)
    let ?s2 = "s\<lparr>in_caps := Some new_in, out_caps := Some new_out,
              in_info := set_info (gst_video_info_from_caps E new_in) (in_info s),
              out_info := set_info (gst_video_info_from_caps E new_out) (out_info s)\<rparr>"
    from assms True c obtain s3 where
      f: "free_current ?s2 = Inr s3" and s': "s' = s3\<lparr>method_impl := None, method_i := 0\<rparr>"
      and r: "r = True"
      by (auto simp: gst_gl_upload_set_caps_def gst_gl_upload_set_caps_unlocked_def Let_def
            split: sum.splits)
    from f have s3: "s3 = (case method_impl s of None \<Rightarrow> ?s2
                          | Some p \<Rightarrow> method_free (the (method_desc s)) (Some p) ?s2)"
      and md: "method_impl s \<noteq> None \<longrightarrow> method_desc s \<noteq> None"
      by (auto simp: free_current_def split: option.splits)
    show ?thesis
      by (rule changed)
         (use True ne r s' s3 md free_current_live[OF f] in
            \<open>auto simp: method_free_def frees_def split: option.splits\<close>)
  qed
qed

lemma perform_keeps_caps:
  assumes "gst_gl_upload_perform_with_buffer E s b = Inr (ret, ob, s')"
  shows "in_caps s' = in_caps s \<and> out_caps s' = out_caps s \<and> method_i s \<le> method_i s'"
  using assms
proof (cases rule: perform_with_buffer_cases)
  case no_buffer
  then show ?thesis by simp
next
  case (ran s0 ob1 s1)
  from find_first_method_effect[OF ran(2)] upload_restart_result[OF ran(3)] ran(4,5)
  show ?thesis by (cases "ret = GST_GL_UPLOAD_DONE") auto
qed

lemma reachable_in_caps_fixed:
  "reachable E s \<Longrightarrow> in_caps s = Some ic \<Longrightarrow> gst_caps_is_fixed ic"
proof (induction arbitrary: ic rule: reachable.induct)
  case (created ctx)
  have "in_caps (new_all ms s) = in_caps s" for ms s
    by (induction ms arbitrary: s) (simp_all add: method_new_def)
  with created show ?case by (simp add: gst_gl_upload_new_def)
next
  case (arrived s buf)
  then show ?case by (simp add: buffer_arrives_def)
next
  case (caps_set s new_in new_out r s')
  from caps_set(2) show ?case
    by (cases rule: set_caps_cases) (use caps_set in auto)
next
  case (performed s b ret ob s')
  with perform_keeps_caps[OF performed(2)] show ?case by simp
qed

text \<open>
  C10, as the code has it. gst_gl_upload_perform_with_buffer never lowers method_i, and
  gst_gl_upload_set_caps leaves it alone unless the caps differ from the stored pair,
  in which case it becomes 0. Once method_i is at the end of upload_methods, a later
  call for a valid buffer asks exactly one strategy, the raw-data instance that is
  still current, to accept the new buffer; it returns GST_GL_UPLOAD_DONE when that
  instance accepts and FALSE when it rejects, and method_i stays where it is.
\<close>

theorem candidate_index_only_grows:
  assumes "reachable E s"
  shows "(\<forall>b ret ob s'. gst_gl_upload_perform_with_buffer E s b = Inr (ret, ob, s') \<longrightarrow>
            method_i s \<le> method_i s' \<and>
            (length upload_methods \<le> method_i s \<and> b < length (buffers s) \<longrightarrow>
               (\<exists>p a. method_impl s = Some p \<and> method_desc s = Some raw_data_upload \<and>
                  calls s' = calls s @
                    (if a then [EvAccept raw_data_upload (Some p) b True,
                                EvPerform raw_data_upload (Some p) b GST_GL_UPLOAD_DONE]
                     else [EvAccept raw_data_upload (Some p) b False]) \<and>
                  (ret = GST_GL_UPLOAD_DONE \<longleftrightarrow> a) \<and> method_i s' = method_i s))) \<and>
         (\<forall>new_in new_out r s'. gst_gl_upload_set_caps E s new_in new_out = Inr (r, s') \<longrightarrow>
            method_i s' = method_i s \<or>
            (method_i s' = 0 \<and> r \<and>
             \<not> (\<exists>ic oc. in_caps s = Some ic \<and> out_caps s = Some oc \<and>
                   gst_caps_is_equal ic new_in \<and> gst_caps_is_equal oc new_out)))"
proof (intro conjI allI impI)
  fix b ret ob s'
  assume run: "gst_gl_upload_perform_with_buffer E s b = Inr (ret, ob, s')"
  from perform_keeps_caps[OF run] show "method_i s \<le> method_i s'" by simp
  assume ex: "length upload_methods \<le> method_i s \<and> b < length (buffers s)"
  note inv = reachable_inv[OF assms]
  from run show "\<exists>p a. method_impl s = Some p \<and> method_desc s = Some raw_data_upload \<and>
                  calls s' = calls s @
                    (if a then [EvAccept raw_data_upload (Some p) b True,
                                EvPerform raw_data_upload (Some p) b GST_GL_UPLOAD_DONE]
                     else [EvAccept raw_data_upload (Some p) b False]) \<and>
                  (ret = GST_GL_UPLOAD_DONE \<longleftrightarrow> a) \<and> method_i s' = method_i s"
  proof (cases rule: perform_with_buffer_cases)
    case no_buffer
    with ex show ?thesis by simp
  next
    case (ran s0 ob1 s1)
    from session_invD(8)[OF inv] ex have "method_impl s \<noteq> None" by auto
    with ran(2) have s0: "s0 = s" by (simp add: find_first_method_def)
    from ran(3) s0 obtain r where pass: "restart_pass E s b = Inr r"
      by (cases "restart_pass E s b") auto
    from exhausted_pass[OF inv _ pass] ex obtain p a ob2 s2 where
      e: "method_impl s = Some p" "method_desc s = Some raw_data_upload"
         "r = Leave (if a then GST_GL_UPLOAD_DONE else RETURN_FALSE) ob2 s2"
         "calls s2 = calls s @
             (if a then [EvAccept raw_data_upload (Some p) b True,
                         EvPerform raw_data_upload (Some p) b GST_GL_UPLOAD_DONE]
              else [EvAccept raw_data_upload (Some p) b False])"
         "method_i s2 = method_i s"
      by blast
    from ran(3) s0 pass e(3) have r2: "ret = (if a then GST_GL_UPLOAD_DONE else RETURN_FALSE)"
      "s1 = s2" by simp_all
    have "calls s' = calls s1 \<and> method_i s' = method_i s1"
      using ran(4,5) by (cases "ret = GST_GL_UPLOAD_DONE") auto
    with e r2 show ?thesis
      by (intro exI[of _ p] exI[of _ a]) auto
  qed
next
  fix new_in new_out r s'
  assume "gst_gl_upload_set_caps E s new_in new_out = Inr (r, s')"
  then show "method_i s' = method_i s \<or>
            (method_i s' = 0 \<and> r \<and>
             \<not> (\<exists>ic oc. in_caps s = Some ic \<and> out_caps s = Some oc \<and>
                   gst_caps_is_equal ic new_in \<and> gst_caps_is_equal oc new_out))"
    by (cases rule: set_caps_cases) auto
qed

theorem candidate_index_only_grows_witness:
  "reachable example_externals exhausted_session \<and>
   gst_gl_upload_perform_with_buffer example_externals exhausted_session 1
     = Inr (GST_GL_UPLOAD_DONE, Some 2, after_exhaustion_outcome) \<and>
   length upload_methods \<le> method_i exhausted_session \<and>
   1 < length (buffers exhausted_session) \<and>
   method_i exhausted_session \<le> method_i after_exhaustion_outcome \<and>
   (\<exists>p a. method_impl exhausted_session = Some p \<and>
      method_desc exhausted_session = Some raw_data_upload \<and>
      calls after_exhaustion_outcome = calls exhausted_session @
        (if a then [EvAccept raw_data_upload (Some p) 1 True,
                    EvPerform raw_data_upload (Some p) 1 GST_GL_UPLOAD_DONE]
         else [EvAccept raw_data_upload (Some p) 1 False]) \<and>
      a \<and> method_i after_exhaustion_outcome = method_i exhausted_session) \<and>
   gst_gl_upload_set_caps example_externals passthrough_outcome
      (rgba_caps GST_CAPS_FEATURE_MEMORY_SYSTEM_MEMORY) (rgba_caps GST_CAPS_FEATURE_MEMORY_GL_MEMORY)
     = Inr (True, renegotiated_session) \<and>
   method_i passthrough_outcome = 1 \<and> method_i renegotiated_session = 0"
proof -
  have e: "length upload_methods \<le> method_i exhausted_session"
    "1 < length (buffers exhausted_session)"
    by (simp_all add: exhausted_session_def example_session_def upload_methods_eq)
  note t = candidate_index_only_grows[OF exhausted_session_reachable]
  from t run_after_exhaustion e
  have g: "method_i exhausted_session \<le> method_i after_exhaustion_outcome" by blast
  from t run_after_exhaustion e
  obtain p a where pa: "method_impl exhausted_session = Some p"
      "method_desc exhausted_session = Some raw_data_upload"
      "calls after_exhaustion_outcome = calls exhausted_session @
        (if a then [EvAccept raw_data_upload (Some p) 1 True,
                    EvPerform raw_data_upload (Some p) 1 GST_GL_UPLOAD_DONE]
         else [EvAccept raw_data_upload (Some p) 1 False])"
      "(GST_GL_UPLOAD_DONE = GST_GL_UPLOAD_DONE) = a"
      "method_i after_exhaustion_outcome = method_i exhausted_session"
    by blast
  then have ex: "\<exists>p a. method_impl exhausted_session = Some p \<and>
      method_desc exhausted_session = Some raw_data_upload \<and>
      calls after_exhaustion_outcome = calls exhausted_session @
        (if a then [EvAccept raw_data_upload (Some p) 1 True,
                    EvPerform raw_data_upload (Some p) 1 GST_GL_UPLOAD_DONE]
         else [EvAccept raw_data_upload (Some p) 1 False]) \<and>
      a \<and> method_i after_exhaustion_outcome = method_i exhausted_session"
    by (intro exI[of _ p] exI[of _ a]) simp
  have i: "method_i passthrough_outcome = 1" "method_i renegotiated_session = 0"
    by (simp_all add: passthrough_outcome_def renegotiated_session_def)
  from exhausted_session_reachable run_after_exhaustion e g ex renegotiate i
  show ?thesis by blast
qed

text \<open>After a call in which every strategy rejected a buffer, a call for another buffer
  asks the raw-data method again and succeeds, with the caps unchanged.\<close>

theorem later_upload_succeeds_after_exhaustion_counterexample:
  "gst_gl_upload_perform_with_buffer example_externals
      (example_session GST_CAPS_FEATURE_MEMORY_SYSTEM_MEMORY [empty_buffer, system_buffer]) 0
     = Inr (RETURN_FALSE, None, exhausted_session) \<and>
   method_i exhausted_session = length upload_methods \<and>
   accepted_methods (calls exhausted_session) =
     [gl_memory_upload, egl_image_upload, upload_meta_upload, raw_data_upload] \<and>
   gst_gl_upload_perform_with_buffer example_externals exhausted_session 1
     = Inr (GST_GL_UPLOAD_DONE, Some 2, after_exhaustion_outcome) \<and>
   calls after_exhaustion_outcome =
     calls exhausted_session @
       [EvAccept raw_data_upload (Some 7) 1 True,
        EvPerform raw_data_upload (Some 7) 1 GST_GL_UPLOAD_DONE]"
  using run_all_reject run_after_exhaustion
  by (simp add: exhausted_session_def after_exhaustion_outcome_def example_session_def
        upload_methods_eq)


text \<open>
  C8, as the code has it. In every state of a session the live instances have distinct
  addresses and are exactly these: one instance per entry of upload_methods, created
  by gst_gl_upload_new and kept in upload_impl, and the current instance method_impl
  when there is one, which is none of the upload_impl instances and belongs to the
  current method.
\<close>

theorem live_instances_of_a_session:
  assumes "reachable E s"
  shows "distinct (map fst (live s)) \<and>
         map (map_of (live s)) (upload_impl s) = map Some upload_methods \<and>
         fst ` set (live s) = set (upload_impl s) \<union> set_option (method_impl s) \<and>
         (\<forall>p. method_impl s = Some p \<longrightarrow>
            p \<notin> set (upload_impl s) \<and>
            (\<exists>m. method_desc s = Some m \<and> map_of (live s) p = Some m))"
  using session_invD(1,3,4,5,6)[OF reachable_inv[OF assms]] by blast

theorem live_instances_of_a_session_witness:
  "reachable example_externals passthrough_outcome \<and>
   distinct (map fst (live passthrough_outcome)) \<and>
   map (map_of (live passthrough_outcome)) (upload_impl passthrough_outcome) = map Some upload_methods \<and>
   fst ` set (live passthrough_outcome) =
     set (upload_impl passthrough_outcome) \<union> set_option (method_impl passthrough_outcome) \<and>
   method_impl passthrough_outcome = Some 4 \<and> 4 \<notin> set (upload_impl passthrough_outcome) \<and>
   method_desc passthrough_outcome = Some gl_memory_upload \<and>
   map_of (live passthrough_outcome) 4 = Some gl_memory_upload"
proof -
  have m: "method_impl passthrough_outcome = Some 4"
    "method_desc passthrough_outcome = Some gl_memory_upload"
    by (simp_all add: passthrough_outcome_def)
  from live_instances_of_a_session[OF passthrough_outcome_reachable] m
    passthrough_outcome_reachable
  show ?thesis by auto
qed

text \<open>A new session holds four live instances and no current one; after the first
  upload two instances of the GL-memory method are live.\<close>

theorem instances_kept_for_every_strategy_counterexample:
  "live (gst_gl_upload_new 0) =
     [(0, gl_memory_upload), (1, egl_image_upload), (2, upload_meta_upload), (3, raw_data_upload)] \<and>
   method_impl (gst_gl_upload_new 0) = None \<and>
   gst_gl_upload_perform_with_buffer example_externals
      (example_session GST_CAPS_FEATURE_MEMORY_GL_MEMORY [own_gl_buffer]) 0
     = Inr (GST_GL_UPLOAD_DONE, Some 0, passthrough_outcome) \<and>
   live passthrough_outcome =
     [(0, gl_memory_upload), (1, egl_image_upload), (2, upload_meta_upload), (3, raw_data_upload),
      (4, gl_memory_upload)] \<and>
   method_impl passthrough_outcome = Some 4"
  using run_own_gl
  by (simp add: live_def impl_kind_def gst_gl_upload_new_def upload_methods_eq method_new_def
        initial_impl_def passthrough_outcome_def example_session_def)


text \<open>
  C4, as the code has it. With an input info whose format description is set, the
  accept functions of the GL-memory and the EGL-image methods answer FALSE, without
  fault and without touching the session, for every buffer whose number of memories
  differs from the count expected for the input info.
\<close>

theorem memory_count_checked_by_gl_and_egl_accept:
  assumes "expected_memories (in_info s) = Inr n" "length (memories (buffers s ! b)) \<noteq> n"
    "deref_impl s impl = Inr u"
  shows "gl_memory_upload_accept s impl (Some b) ic oc = Inr (False, s) \<and>
         egl_image_upload_accept s impl (Some b) ic oc = Inr (False, s)"
  using assms by (simp add: gl_memory_upload_accept_def egl_image_upload_accept_def)

theorem memory_count_checked_by_gl_and_egl_accept_witness:
  "expected_memories (in_info (example_session GST_CAPS_FEATURE_MEMORY_SYSTEM_MEMORY
         [two_memory_buffer])) = Inr 1 \<and>
   length (memories (buffers (example_session GST_CAPS_FEATURE_MEMORY_SYSTEM_MEMORY
         [two_memory_buffer]) ! 0)) \<noteq> 1 \<and>
   deref_impl (example_session GST_CAPS_FEATURE_MEMORY_SYSTEM_MEMORY [two_memory_buffer])
      (Some 0) = Inr GLMemoryUpload \<and>
   gl_memory_upload_accept (example_session GST_CAPS_FEATURE_MEMORY_SYSTEM_MEMORY [two_memory_buffer])
      (Some 0) (Some 0) (Some (rgba_caps GST_CAPS_FEATURE_MEMORY_SYSTEM_MEMORY))
      (Some (rgba_caps GST_CAPS_FEATURE_MEMORY_GL_MEMORY))
     = Inr (False, example_session GST_CAPS_FEATURE_MEMORY_SYSTEM_MEMORY [two_memory_buffer]) \<and>
   egl_image_upload_accept (example_session GST_CAPS_FEATURE_MEMORY_SYSTEM_MEMORY [two_memory_buffer])
      (Some 0) (Some 0) (Some (rgba_caps GST_CAPS_FEATURE_MEMORY_SYSTEM_MEMORY))
      (Some (rgba_caps GST_CAPS_FEATURE_MEMORY_GL_MEMORY))
     = Inr (False, example_session GST_CAPS_FEATURE_MEMORY_SYSTEM_MEMORY [two_memory_buffer])"
proof -
  let ?s = "example_session GST_CAPS_FEATURE_MEMORY_SYSTEM_MEMORY [two_memory_buffer]"
  have a: "expected_memories (in_info ?s) = Inr 1"
    by (simp add: example_session_def expected_memories_def info_of_planes_def)
  have b: "length (memories (buffers ?s ! 0)) \<noteq> 1"
    by (simp add: example_session_def two_memory_buffer_def new_buffer_def)
  have c: "deref_impl ?s (Some 0) = Inr GLMemoryUpload"
    by (simp add: example_session_def deref_impl_def)
  from memory_count_checked_by_gl_and_egl_accept[OF a b c] a b c show ?thesis by simp
qed

text \<open>Buffers with two memories for a one-plane format are uploaded by the upload-meta
  method and by the raw-data method.\<close>

theorem memory_count_ignored_by_meta_and_raw_counterexample:
  "expected_memories (in_info (example_session GST_CAPS_FEATURE_META_GST_VIDEO_GL_TEXTURE_UPLOAD_META
         [meta_buffer True [GstSystemMemory, GstSystemMemory]])) = Inr 1 \<and>
   length (memories (meta_buffer True [GstSystemMemory, GstSystemMemory])) = 2 \<and>
   gst_gl_upload_perform_with_buffer example_externals
      (example_session GST_CAPS_FEATURE_META_GST_VIDEO_GL_TEXTURE_UPLOAD_META
         [meta_buffer True [GstSystemMemory, GstSystemMemory]]) 0
     = Inr (GST_GL_UPLOAD_DONE, Some 1, meta_done_outcome) \<and>
   expected_memories (in_info (example_session GST_CAPS_FEATURE_MEMORY_SYSTEM_MEMORY
         [two_memory_buffer])) = Inr 1 \<and>
   length (memories two_memory_buffer) = 2 \<and>
   gst_gl_upload_perform_with_buffer example_externals
      (example_session GST_CAPS_FEATURE_MEMORY_SYSTEM_MEMORY [two_memory_buffer]) 0
     = Inr (GST_GL_UPLOAD_DONE, Some 1, raw_done_outcome)"
  using run_meta_two_memories run_raw_two_memories
  by (simp add: example_session_def expected_memories_def info_of_planes_def meta_buffer_def
        two_memory_buffer_def new_buffer_def)


lemma set_caps_changed_returns:
  assumes inv: "session_inv s" and fx: "gst_caps_is_fixed new_in"
    and ne: "\<not> (\<exists>ic oc. in_caps s = Some ic \<and> out_caps s = Some oc \<and>
                gst_caps_is_equal ic new_in \<and> gst_caps_is_equal oc new_out)"
  shows "\<exists>s'. gst_gl_upload_set_caps E s new_in new_out = Inr (True, s')"
proof -
  have c: "\<not> (case (in_caps s, out_caps s) of
                 (Some ic, Some oc) \<Rightarrow> gst_caps_is_equal ic new_in \<and> gst_caps_is_equal oc new_out
               | _ \<Rightarrow> False)"
    using ne by (auto split: option.splits)
  have "method_impl s \<noteq> None \<longrightarrow> method_desc s \<noteq> None"
    using session_invD(6)[OF inv] by auto
  then have "\<exists>s3. free_current (s\<lparr>in_caps := Some new_in, out_caps := Some new_out,
        in_info := set_info (gst_video_info_from_caps E new_in) (in_info s),
        out_info := set_info (gst_video_info_from_caps E new_out) (out_info s)\<rparr>) = Inr s3"
    by (cases "method_impl s") (auto simp: free_current_def)
  then obtain s3 where
    "free_current (s\<lparr>in_caps := Some new_in, out_caps := Some new_out,
        in_info := set_info (gst_video_info_from_caps E new_in) (in_info s),
        out_info := set_info (gst_video_info_from_caps E new_out) (out_info s)\<rparr>) = Inr s3"
    by blast
  with fx c show ?thesis
    by (simp add: gst_gl_upload_set_caps_def gst_gl_upload_set_caps_unlocked_def Let_def)
qed

text \<open>
  C5. gst_gl_upload_set_caps with the caps pair that is stored on the session, or with
  fixed input caps and a pair that gst_caps_is_equal finds equal to the stored one,
  answers TRUE and leaves the session as it was. Calling it a second time with the
  arguments of a call that returned changes nothing. Whenever a call changes the
  session, the caps differed from the stored pair, the current instance was freed,
  method_impl is NULL and method_i is 0. And whenever fixed input caps come with a pair
  that differs from the stored one (in the input caps, in the output caps, or because
  none is stored), the call answers TRUE, stores the new caps and the infos parsed from
  them, frees the current instance when there is one, and leaves method_impl NULL and
  method_i 0.
\<close>

theorem set_caps_with_same_caps_changes_nothing:
  assumes "reachable E s"
  shows "(in_caps s = Some ic \<and> out_caps s = Some oc \<longrightarrow>
            gst_gl_upload_set_caps E s ic oc = Inr (True, s)) \<and>
         (gst_caps_is_fixed new_in \<and> in_caps s = Some ic \<and> out_caps s = Some oc \<and>
          gst_caps_is_equal ic new_in \<and> gst_caps_is_equal oc new_out \<longrightarrow>
            gst_gl_upload_set_caps E s new_in new_out = Inr (True, s)) \<and>
         (\<forall>r s'. gst_gl_upload_set_caps E s new_in new_out = Inr (r, s') \<longrightarrow>
            gst_gl_upload_set_caps E s' new_in new_out = Inr (r, s') \<and>
            (s' \<noteq> s \<longrightarrow>
               \<not> (\<exists>ic oc. in_caps s = Some ic \<and> out_caps s = Some oc \<and>
                     gst_caps_is_equal ic new_in \<and> gst_caps_is_equal oc new_out) \<and>
               method_impl s' = None \<and> method_i s' = 0 \<and>
               calls s' = calls s @
                 (case method_desc s of None \<Rightarrow> [] | Some m \<Rightarrow> frees m (method_impl s)) \<and>
               live s' = filter (\<lambda>e. Some (fst e) \<noteq> method_impl s) (live s))) \<and>
         (gst_caps_is_fixed new_in \<and>
          \<not> (\<exists>ic oc. in_caps s = Some ic \<and> out_caps s = Some oc \<and>
                gst_caps_is_equal ic new_in \<and> gst_caps_is_equal oc new_out) \<longrightarrow>
            (\<exists>s'. gst_gl_upload_set_caps E s new_in new_out = Inr (True, s') \<and>
               in_caps s' = Some new_in \<and> out_caps s' = Some new_out \<and>
               in_info s' = set_info (gst_video_info_from_caps E new_in) (in_info s) \<and>
               out_info s' = set_info (gst_video_info_from_caps E new_out) (out_info s) \<and>
               method_impl s' = None \<and> method_i s' = 0 \<and>
               (case method_impl s of
                  None \<Rightarrow> calls s' = calls s \<and> live s' = live s
                | Some p \<Rightarrow>
                    (\<exists>m. method_desc s = Some m \<and> calls s' = calls s @ [EvFree m p]) \<and>
                    p \<notin> fst ` set (live s') \<and>
                    live s' = filter (\<lambda>e. fst e \<noteq> p) (live s))))"
proof (intro conjI allI impI)
  assume a: "in_caps s = Some ic \<and> out_caps s = Some oc"
  with reachable_in_caps_fixed[OF assms] have "gst_caps_is_fixed ic" by simp
  with a show "gst_gl_upload_set_caps E s ic oc = Inr (True, s)"
    by (simp add: gst_gl_upload_set_caps_def gst_gl_upload_set_caps_unlocked_def
          gst_caps_is_equal_refl)
next
  assume "gst_caps_is_fixed new_in \<and> in_caps s = Some ic \<and> out_caps s = Some oc \<and>
          gst_caps_is_equal ic new_in \<and> gst_caps_is_equal oc new_out"
  then show "gst_gl_upload_set_caps E s new_in new_out = Inr (True, s)"
    by (simp add: gst_gl_upload_set_caps_def gst_gl_upload_set_caps_unlocked_def)
next
  fix r s'
  assume c: "gst_gl_upload_set_caps E s new_in new_out = Inr (r, s')"
  then show "gst_gl_upload_set_caps E s' new_in new_out = Inr (r, s')"
  proof (cases rule: set_caps_cases)
    case unfixed
    with c show ?thesis by simp
  next
    case (same ic oc)
    with c show ?thesis by simp
  next
    case changed
    then show ?thesis
      by (simp add: gst_gl_upload_set_caps_def gst_gl_upload_set_caps_unlocked_def
            gst_caps_is_equal_refl)
  qed
  assume "s' \<noteq> s"
  with c show "\<not> (\<exists>ic oc. in_caps s = Some ic \<and> out_caps s = Some oc \<and>
                     gst_caps_is_equal ic new_in \<and> gst_caps_is_equal oc new_out)"
    "method_impl s' = None" "method_i s' = 0"
    "calls s' = calls s @
                 (case method_desc s of None \<Rightarrow> [] | Some m \<Rightarrow> frees m (method_impl s))"
    "live s' = filter (\<lambda>e. Some (fst e) \<noteq> method_impl s) (live s)"
    by (cases rule: set_caps_cases; simp)+
next
  assume h: "gst_caps_is_fixed new_in \<and>
          \<not> (\<exists>ic oc. in_caps s = Some ic \<and> out_caps s = Some oc \<and>
                gst_caps_is_equal ic new_in \<and> gst_caps_is_equal oc new_out)"
  note inv = reachable_inv[OF assms]
  from set_caps_changed_returns[OF inv, of new_in new_out E] h obtain s' where
    run: "gst_gl_upload_set_caps E s new_in new_out = Inr (True, s')" by blast
  have md: "\<forall>p. method_impl s = Some p \<longrightarrow> (\<exists>m. method_desc s = Some m)"
    using session_invD(6)[OF inv] by auto
  from run h have
    f: "in_caps s' = Some new_in" "out_caps s' = Some new_out"
       "in_info s' = set_info (gst_video_info_from_caps E new_in) (in_info s)"
       "out_info s' = set_info (gst_video_info_from_caps E new_out) (out_info s)"
       "method_impl s' = None" "method_i s' = 0"
    and cl: "calls s' = calls s @
                 (case method_desc s of None \<Rightarrow> [] | Some m \<Rightarrow> frees m (method_impl s))"
    and lv: "live s' = filter (\<lambda>e. Some (fst e) \<noteq> method_impl s) (live s)"
    by (cases rule: set_caps_cases; simp)+
  have "case method_impl s of
          None \<Rightarrow> calls s' = calls s \<and> live s' = live s
        | Some p \<Rightarrow>
            (\<exists>m. method_desc s = Some m \<and> calls s' = calls s @ [EvFree m p]) \<and>
            p \<notin> fst ` set (live s') \<and>
            live s' = filter (\<lambda>e. fst e \<noteq> p) (live s)"
  proof (cases "method_impl s")
    case None
    with cl lv show ?thesis by (simp add: frees_def split: option.splits)
  next
    case (Some p)
    with md obtain m where m: "method_desc s = Some m" by blast
    with Some cl lv show ?thesis by (auto simp: frees_def)
  qed
  with run f show "\<exists>s'. gst_gl_upload_set_caps E s new_in new_out = Inr (True, s') \<and>
               in_caps s' = Some new_in \<and> out_caps s' = Some new_out \<and>
               in_info s' = set_info (gst_video_info_from_caps E new_in) (in_info s) \<and>
               out_info s' = set_info (gst_video_info_from_caps E new_out) (out_info s) \<and>
               method_impl s' = None \<and> method_i s' = 0 \<and>
               (case method_impl s of
                  None \<Rightarrow> calls s' = calls s \<and> live s' = live s
                | Some p \<Rightarrow>
                    (\<exists>m. method_desc s = Some m \<and> calls s' = calls s @ [EvFree m p]) \<and>
                    p \<notin> fst ` set (live s') \<and>
                    live s' = filter (\<lambda>e. fst e \<noteq> p) (live s))"
    by blast
qed

theorem set_caps_with_same_caps_changes_nothing_witness:
  "reachable example_externals passthrough_outcome \<and>
   in_caps passthrough_outcome = Some (rgba_caps GST_CAPS_FEATURE_MEMORY_GL_MEMORY) \<and>
   out_caps passthrough_outcome = Some (rgba_caps GST_CAPS_FEATURE_MEMORY_GL_MEMORY) \<and>
   gst_gl_upload_set_caps example_externals passthrough_outcome
      (rgba_caps GST_CAPS_FEATURE_MEMORY_GL_MEMORY) (rgba_caps GST_CAPS_FEATURE_MEMORY_GL_MEMORY)
     = Inr (True, passthrough_outcome) \<and>
   gst_gl_upload_set_caps example_externals passthrough_outcome
      (rgba_caps GST_CAPS_FEATURE_MEMORY_SYSTEM_MEMORY) (rgba_caps GST_CAPS_FEATURE_MEMORY_GL_MEMORY)
     = Inr (True, renegotiated_session) \<and>
   renegotiated_session \<noteq> passthrough_outcome \<and>
   gst_gl_upload_set_caps example_externals renegotiated_session
      (rgba_caps GST_CAPS_FEATURE_MEMORY_SYSTEM_MEMORY) (rgba_caps GST_CAPS_FEATURE_MEMORY_GL_MEMORY)
     = Inr (True, renegotiated_session) \<and>
   method_impl renegotiated_session = None \<and> method_i renegotiated_session = 0 \<and>
   calls renegotiated_session = calls passthrough_outcome @ [EvFree gl_memory_upload 4] \<and>
   gst_caps_is_fixed (rgba_caps GST_CAPS_FEATURE_MEMORY_GL_MEMORY) \<and>
   \<not> gst_caps_is_equal (rgba_caps GST_CAPS_FEATURE_MEMORY_GL_MEMORY)
        (rgba_caps GST_CAPS_FEATURE_MEMORY_SYSTEM_MEMORY) \<and>
   method_impl passthrough_outcome = Some 4 \<and> method_i passthrough_outcome = 1 \<and>
   (\<exists>s'. gst_gl_upload_set_caps example_externals passthrough_outcome
            (rgba_caps GST_CAPS_FEATURE_MEMORY_GL_MEMORY)
            (rgba_caps GST_CAPS_FEATURE_MEMORY_SYSTEM_MEMORY) = Inr (True, s') \<and>
         in_caps s' = Some (rgba_caps GST_CAPS_FEATURE_MEMORY_GL_MEMORY) \<and>
         out_caps s' = Some (rgba_caps GST_CAPS_FEATURE_MEMORY_SYSTEM_MEMORY) \<and>
         method_impl s' = None \<and> method_i s' = 0 \<and>
         calls s' = calls passthrough_outcome @ [EvFree gl_memory_upload 4] \<and>
         4 \<notin> fst ` set (live s'))"
proof -
  have c: "in_caps passthrough_outcome = Some (rgba_caps GST_CAPS_FEATURE_MEMORY_GL_MEMORY)"
    "out_caps passthrough_outcome = Some (rgba_caps GST_CAPS_FEATURE_MEMORY_GL_MEMORY)"
    by (simp_all add: passthrough_outcome_def example_session_def)
  have n: "renegotiated_session \<noteq> passthrough_outcome"
  proof
    assume "renegotiated_session = passthrough_outcome"
    then have "method_impl renegotiated_session = method_impl passthrough_outcome" by simp
    then show False by (simp add: renegotiated_session_def passthrough_outcome_def)
  qed
  note t1 = set_caps_with_same_caps_changes_nothing[OF passthrough_outcome_reachable,
      of "rgba_caps GST_CAPS_FEATURE_MEMORY_GL_MEMORY" "rgba_caps GST_CAPS_FEATURE_MEMORY_GL_MEMORY"
         "rgba_caps GST_CAPS_FEATURE_MEMORY_SYSTEM_MEMORY" "rgba_caps GST_CAPS_FEATURE_MEMORY_GL_MEMORY"]
  from t1 c have same: "gst_gl_upload_set_caps example_externals passthrough_outcome
      (rgba_caps GST_CAPS_FEATURE_MEMORY_GL_MEMORY) (rgba_caps GST_CAPS_FEATURE_MEMORY_GL_MEMORY)
     = Inr (True, passthrough_outcome)" by blast
  from t1 renegotiate n have again: "gst_gl_upload_set_caps example_externals renegotiated_session
      (rgba_caps GST_CAPS_FEATURE_MEMORY_SYSTEM_MEMORY) (rgba_caps GST_CAPS_FEATURE_MEMORY_GL_MEMORY)
     = Inr (True, renegotiated_session)"
    and reset: "method_impl renegotiated_session = None" "method_i renegotiated_session = 0"
    by blast+
  have calls: "calls renegotiated_session = calls passthrough_outcome @ [EvFree gl_memory_upload 4]"
    by (simp add: renegotiated_session_def)
  have fx: "gst_caps_is_fixed (rgba_caps GST_CAPS_FEATURE_MEMORY_GL_MEMORY)"
    by (simp add: rgba_caps_def)
  have ne: "\<not> gst_caps_is_equal (rgba_caps GST_CAPS_FEATURE_MEMORY_GL_MEMORY)
        (rgba_caps GST_CAPS_FEATURE_MEMORY_SYSTEM_MEMORY)"
    by (simp add: rgba_caps_def gst_caps_is_equal_def
          GST_CAPS_FEATURE_MEMORY_SYSTEM_MEMORY_def GST_CAPS_FEATURE_MEMORY_GL_MEMORY_def)
  have cur: "method_impl passthrough_outcome = Some 4" "method_i passthrough_outcome = 1"
    "method_desc passthrough_outcome = Some gl_memory_upload"
    by (simp_all add: passthrough_outcome_def)
  note t2 = set_caps_with_same_caps_changes_nothing[OF passthrough_outcome_reachable,
      of "rgba_caps GST_CAPS_FEATURE_MEMORY_GL_MEMORY" "rgba_caps GST_CAPS_FEATURE_MEMORY_GL_MEMORY"
         "rgba_caps GST_CAPS_FEATURE_MEMORY_GL_MEMORY" "rgba_caps GST_CAPS_FEATURE_MEMORY_SYSTEM_MEMORY"]
  from c ne have "\<not> (\<exists>ic oc. in_caps passthrough_outcome = Some ic \<and>
        out_caps passthrough_outcome = Some oc \<and>
        gst_caps_is_equal ic (rgba_caps GST_CAPS_FEATURE_MEMORY_GL_MEMORY) \<and>
        gst_caps_is_equal oc (rgba_caps GST_CAPS_FEATURE_MEMORY_SYSTEM_MEMORY))"
    by simp
  with t2 fx obtain s' where
    s': "gst_gl_upload_set_caps example_externals passthrough_outcome
            (rgba_caps GST_CAPS_FEATURE_MEMORY_GL_MEMORY)
            (rgba_caps GST_CAPS_FEATURE_MEMORY_SYSTEM_MEMORY) = Inr (True, s')"
        "in_caps s' = Some (rgba_caps GST_CAPS_FEATURE_MEMORY_GL_MEMORY)"
        "out_caps s' = Some (rgba_caps GST_CAPS_FEATURE_MEMORY_SYSTEM_MEMORY)"
        "method_impl s' = None" "method_i s' = 0"
        "case method_impl passthrough_outcome of
           None \<Rightarrow> calls s' = calls passthrough_outcome \<and> live s' = live passthrough_outcome
         | Some p \<Rightarrow>
             (\<exists>m. method_desc passthrough_outcome = Some m \<and>
                  calls s' = calls passthrough_outcome @ [EvFree m p]) \<and>
             p \<notin> fst ` set (live s') \<and>
             live s' = filter (\<lambda>e. fst e \<noteq> p) (live passthrough_outcome)"
    by blast
  from s'(6) cur have "calls s' = calls passthrough_outcome @ [EvFree gl_memory_upload 4]"
    "4 \<notin> fst ` set (live s')" by auto
  with s'(1-5) have out: "\<exists>s'. gst_gl_upload_set_caps example_externals passthrough_outcome
            (rgba_caps GST_CAPS_FEATURE_MEMORY_GL_MEMORY)
            (rgba_caps GST_CAPS_FEATURE_MEMORY_SYSTEM_MEMORY) = Inr (True, s') \<and>
         in_caps s' = Some (rgba_caps GST_CAPS_FEATURE_MEMORY_GL_MEMORY) \<and>
         out_caps s' = Some (rgba_caps GST_CAPS_FEATURE_MEMORY_SYSTEM_MEMORY) \<and>
         method_impl s' = None \<and> method_i s' = 0 \<and>
         calls s' = calls passthrough_outcome @ [EvFree gl_memory_upload 4] \<and>
         4 \<notin> fst ` set (live s')"
    by blast
  from passthrough_outcome_reachable c same renegotiate n again reset calls fx ne cur(1,2) out
  show ?thesis by blast
qed































text \<open>With a filter the second application towards the sink pad can list an entry
  that the first result already covers: the two results are then different caps
  values, which gst_caps_is_equal finds equal.\<close>

lemma transform_caps_with_filter_repeats_entries:
  "gst_gl_upload_transform_caps with_overlay_composition 0 GST_PAD_SINK
       (gst_gl_upload_transform_caps with_overlay_composition 0 GST_PAD_SINK i420_caps
          (Some sized_filter)) (Some sized_filter)
     \<noteq> gst_gl_upload_transform_caps with_overlay_composition 0 GST_PAD_SINK i420_caps
          (Some sized_filter) \<and>
   gst_caps_is_equal
       (gst_gl_upload_transform_caps with_overlay_composition 0 GST_PAD_SINK
          (gst_gl_upload_transform_caps with_overlay_composition 0 GST_PAD_SINK i420_caps
             (Some sized_filter)) (Some sized_filter))
       (gst_gl_upload_transform_caps with_overlay_composition 0 GST_PAD_SINK i420_caps
          (Some sized_filter))"
  by (simp add: gst_gl_upload_transform_caps_def method_transform_caps_def upload_methods_eq
        gl_memory_upload_transform_caps_def egl_image_upload_transform_caps_def
        upload_meta_upload_transform_caps_def raw_data_upload_transform_caps_def
        gst_structure_set_value_def gst_structure_remove_fields_def
        gst_caps_merge_structure_full_def gst_structure_is_subset_def value_is_subset_def
        gst_structure_intersect_def intersect_entry_def gst_value_intersect_def
        with_overlay_composition_def i420_caps_def sized_filter_def gst_caps_is_equal_def
        GST_CAPS_FEATURE_MEMORY_SYSTEM_MEMORY_def GST_CAPS_FEATURE_MEMORY_GL_MEMORY_def
        GST_CAPS_FEATURE_MEMORY_EGL_IMAGE_def GST_CAPS_FEATURE_META_GST_VIDEO_GL_TEXTURE_UPLOAD_META_def
        GST_CAPS_FEATURE_META_GST_VIDEO_OVERLAY_COMPOSITION_def Let_def)


text \<open>
  C6. gst_gl_upload_set_caps answers FALSE and leaves the object as it was whenever the
  input caps are not fixed; whenever it answers TRUE the input caps were fixed.
\<close>

theorem set_caps_unfixed_input_fails:
  "(\<not> gst_caps_is_fixed new_in \<longrightarrow>
      gst_gl_upload_set_caps E s new_in new_out = Inr (False, s)) \<and>
   (\<forall>s'. gst_gl_upload_set_caps E s new_in new_out = Inr (True, s') \<longrightarrow>
      gst_caps_is_fixed new_in)"
  by (auto simp: gst_gl_upload_set_caps_def gst_gl_upload_set_caps_unlocked_def)

theorem set_caps_unfixed_input_fails_witness:
  "\<not> gst_caps_is_fixed unfixed_caps \<and>
   gst_gl_upload_set_caps example_externals (gst_gl_upload_new 0) unfixed_caps
       (rgba_caps GST_CAPS_FEATURE_MEMORY_GL_MEMORY) = Inr (False, gst_gl_upload_new 0) \<and>
   (\<exists>s'. gst_gl_upload_set_caps example_externals (gst_gl_upload_new 0)
             (rgba_caps GST_CAPS_FEATURE_MEMORY_GL_MEMORY)
             (rgba_caps GST_CAPS_FEATURE_MEMORY_GL_MEMORY) = Inr (True, s')) \<and>
   gst_caps_is_fixed (rgba_caps GST_CAPS_FEATURE_MEMORY_GL_MEMORY)"
proof -
  have nf: "\<not> gst_caps_is_fixed unfixed_caps"
    by (simp add: unfixed_caps_def)
  have ok: "\<exists>s'. gst_gl_upload_set_caps example_externals (gst_gl_upload_new 0)
             (rgba_caps GST_CAPS_FEATURE_MEMORY_GL_MEMORY)
             (rgba_caps GST_CAPS_FEATURE_MEMORY_GL_MEMORY) = Inr (True, s')"
    by (simp add: gst_gl_upload_set_caps_def gst_gl_upload_set_caps_unlocked_def
        rgba_caps_def gst_gl_upload_new_def upload_methods_def method_new_def
        free_current_def Let_def)
  from set_caps_unfixed_input_fails
    [of unfixed_caps example_externals "gst_gl_upload_new 0"
        "rgba_caps GST_CAPS_FEATURE_MEMORY_GL_MEMORY"]
  have a: "gst_gl_upload_set_caps example_externals (gst_gl_upload_new 0) unfixed_caps
       (rgba_caps GST_CAPS_FEATURE_MEMORY_GL_MEMORY) = Inr (False, gst_gl_upload_new 0)"
    using nf by blast
  from ok set_caps_unfixed_input_fails
    [of "rgba_caps GST_CAPS_FEATURE_MEMORY_GL_MEMORY" example_externals "gst_gl_upload_new 0"
        "rgba_caps GST_CAPS_FEATURE_MEMORY_GL_MEMORY"]
  have b: "gst_caps_is_fixed (rgba_caps GST_CAPS_FEATURE_MEMORY_GL_MEMORY)"
    by blast
  from nf a ok b show ?thesis by blast
qed

end
